theory Spec2Isabelle
  imports Main "HOL-Library.AList"
begin

section \<open>Shorekeeper: the weekly money-collection tracker\<close>

text \<open>
  A shallow embedding of \<^verbatim>\<open>Shorekeeper.py\<close>: the calendar helpers, the payment-line
  parser, the message handler that records payments, the weekly report and the roster
  commands.

  Conventions of the embedding.
  \<^item> A Python \<^verbatim>\<open>str\<close> is a \<^typ>\<open>string\<close> holding the UTF-8 bytes of the text. The
    operations \<^verbatim>\<open>lower\<close>, \<^verbatim>\<open>strip\<close>, \<^verbatim>\<open>split\<close> and \<^verbatim>\<open>isdigit\<close> are given
    their meaning on ASCII text; a byte above 127 is kept as it is, is no white space
    and no digit.
  \<^item> \<^verbatim>\<open>datetime.now()\<close> is read once per use in the source; the embedding takes the
    reading as an argument.
  \<^item> Python's floating-point numbers stay abstract: \<^verbatim>\<open>float(s)\<close>, addition,
    the test \<^verbatim>\<open>x > 0\<close> and the format \<^verbatim>\<open>:.2f\<close> are fields of a record of
    operations that every function takes as its first argument. The general theorems
    hold for all such operations; the examples run on \<open>whole_ops\<close>, the whole numbers.
\<close>

subsection \<open>Strings\<close>

definition lower_char :: "char \<Rightarrow> char" where
  "lower_char c =
     (let n = (of_char c :: nat) in if 65 \<le> n \<and> n \<le> 90 then char_of (n + 32) else c)"

definition lower :: "string \<Rightarrow> string" where
  "lower s = map lower_char s"

text \<open>The white space of \<^verbatim>\<open>str.strip()\<close> and \<^verbatim>\<open>str.split()\<close> below code point 128:
  tab, line feed, vertical tab, form feed, carriage return, the four separators
  \<^verbatim>\<open>\x1c\<close> to \<^verbatim>\<open>\x1f\<close> and the space.\<close>

definition isspace :: "char \<Rightarrow> bool" where
  "isspace c = (let n = (of_char c :: nat) in (9 \<le> n \<and> n \<le> 13) \<or> (28 \<le> n \<and> n \<le> 32))"

definition isdigit :: "char \<Rightarrow> bool" where
  "isdigit c = (let n = (of_char c :: nat) in 48 \<le> n \<and> n \<le> 57)"

definition strip :: "string \<Rightarrow> string" where
  "strip s = rev (dropWhile isspace (rev (dropWhile isspace s)))"

definition startswith :: "string \<Rightarrow> string \<Rightarrow> bool" where
  "startswith s p = (take (length p) s = p)"

text \<open>\<^verbatim>\<open>s.replace(old, '')\<close> for a non-empty \<^verbatim>\<open>old\<close>: one pass from the left over the
  occurrences that do not overlap; what a removal brings together is not looked at again.\<close>

fun remove_all :: "string \<Rightarrow> string \<Rightarrow> string" where
  "remove_all old [] = []"
| "remove_all old (c # cs) =
     (if old \<noteq> [] \<and> startswith (c # cs) old
      then remove_all old (drop (length old) (c # cs))
      else c # remove_all old cs)"

text \<open>\<^verbatim>\<open>s.split()\<close> with no argument: the maximal runs of characters that are not
  white space, in order.\<close>

function split_ws :: "string \<Rightarrow> string list" where
  "split_ws [] = []"
| "split_ws (c # cs) =
     (if isspace c then split_ws cs
      else takeWhile (\<lambda>x. \<not> isspace x) (c # cs)
             # split_ws (dropWhile (\<lambda>x. \<not> isspace x) cs))"
  by pat_completeness auto
termination
  by (relation "measure length") (auto simp: length_dropWhile_le less_Suc_eq_le)

text \<open>\<^verbatim>\<open>s.split('\n')\<close>: the pieces between line feeds, empty pieces included; the
  result always has at least one piece.\<close>

fun split_lines :: "string \<Rightarrow> string list" where
  "split_lines [] = [[]]"
| "split_lines (c # cs) =
     (if c = CHR 0x0A then [] # split_lines cs
      else (case split_lines cs of
              [] \<Rightarrow> [[c]]
            | l # ls \<Rightarrow> (c # l) # ls))"

text \<open>\<^verbatim>\<open>sep.join(xs)\<close>.\<close>

fun join :: "string \<Rightarrow> string list \<Rightarrow> string" where
  "join sep [] = []"
| "join sep [x] = x"
| "join sep (x # y # ys) = x @ sep @ join sep (y # ys)"

text \<open>Decimal numerals, as \<^verbatim>\<open>str(n)\<close> and the formats \<^verbatim>\<open>%d\<close>, \<^verbatim>\<open>%m\<close>,
  \<^verbatim>\<open>%H\<close> (two digits, padded with a zero) print them.\<close>

definition digit_char :: "nat \<Rightarrow> char" where
  "digit_char n = ''0123456789'' ! (n mod 10)"

function str_digits :: "int \<Rightarrow> string" where
  "str_digits n =
     (if n < 10 then [digit_char (nat n)]
      else str_digits (n div 10) @ [digit_char (nat (n mod 10))])"
  by pat_completeness auto
termination
  by (relation "measure nat") auto

declare str_digits.simps [simp del]

definition str_int :: "int \<Rightarrow> string" where
  "str_int i = (if i < 0 then CHR ''-'' # str_digits (- i) else str_digits i)"

definition str_nat :: "nat \<Rightarrow> string" where
  "str_nat n = str_digits (int n)"

definition pad2 :: "nat \<Rightarrow> string" where
  "pad2 n = (if n < 10 then CHR ''0'' # str_nat n else str_nat n)"

subsection \<open>Dates\<close>

text \<open>
  A \<^verbatim>\<open>date\<close> is its proleptic Gregorian ordinal (\<^verbatim>\<open>date.toordinal()\<close>: day 1 is
  1 January of year 1, a Monday), and \<^verbatim>\<open>timedelta(days=k)\<close> adds \<open>k\<close> to it. A
  \<^verbatim>\<open>datetime\<close> is a date and a time of day. The library keeps dates within the years
  1 to 9999 and raises outside; a clock reading is far from both ends, and the
  embedding has no such bound.
\<close>

record datetime =
  ordinal :: int
  hour :: nat
  minute :: nat
  second :: nat

definition weekday :: "int \<Rightarrow> int" where
  "weekday d = (d + 6) mod 7"

definition is_leap :: "int \<Rightarrow> bool" where
  "is_leap y = (y mod 4 = 0 \<and> (y mod 100 \<noteq> 0 \<or> y mod 400 = 0))"

definition days_in_months :: "bool \<Rightarrow> int list" where
  "days_in_months leap = [31, if leap then 29 else 28, 31, 30, 31, 30, 31, 31, 30, 31, 30, 31]"

fun walk_months :: "int list \<Rightarrow> nat \<Rightarrow> int \<Rightarrow> nat \<times> int" where
  "walk_months [] m n = (m, n)"
| "walk_months (l # ls) m n = (if n < l then (m, n) else walk_months ls (Suc m) (n - l))"

text \<open>
  Year, month and day of an ordinal. Whole cycles of 400, 100 and 4 years and whole years
  are taken off the days since day 1, one stage after the other; the last day of a leap
  cycle is 31 December; the months of the year are walked through for the rest.
\<close>

definition month_and_day :: "int \<Rightarrow> int \<Rightarrow> int \<times> nat \<times> nat" where
  "month_and_day y r =
     (case walk_months (days_in_months (is_leap y)) 1 r of (m, r') \<Rightarrow> (y, m, nat r' + 1))"

definition within_year :: "int \<Rightarrow> int \<Rightarrow> int \<Rightarrow> int \<Rightarrow> int \<Rightarrow> int \<Rightarrow> int \<times> nat \<times> nat" where
  "within_year n400 n100 n4 n1 y r =
     (if n1 = 4 \<or> n100 = 4 then (y - 1, 12, 31) else month_and_day y r)"

definition within_4 :: "int \<Rightarrow> int \<Rightarrow> int \<Rightarrow> int \<Rightarrow> int \<times> nat \<times> nat" where
  "within_4 n400 n100 n4 r =
     within_year n400 n100 n4 (r div 365)
       (n400 * 400 + 1 + n100 * 100 + n4 * 4 + r div 365) (r mod 365)"

definition within_100 :: "int \<Rightarrow> int \<Rightarrow> int \<Rightarrow> int \<times> nat \<times> nat" where
  "within_100 n400 n100 r = within_4 n400 n100 (r div 1461) (r mod 1461)"

definition within_400 :: "int \<Rightarrow> int \<Rightarrow> int \<times> nat \<times> nat" where
  "within_400 n400 r = within_100 n400 (r div 36524) (r mod 36524)"

definition ord2ymd :: "int \<Rightarrow> int \<times> nat \<times> nat" where
  "ord2ymd d = within_400 ((d - 1) div 146097) ((d - 1) mod 146097)"

definition MONTHS :: "string list" where
  "MONTHS = [''January'', ''February'', ''March'', ''April'', ''May'', ''June'', ''July'',
             ''August'', ''September'', ''October'', ''November'', ''December'']"

text \<open>The three date formats of the source, in the C locale: \<^verbatim>\<open>%Y-%m-%d\<close>,
  \<^verbatim>\<open>%B %d\<close> and \<^verbatim>\<open>%B %d, %Y\<close>; and \<^verbatim>\<open>%H:%M:%S\<close>. The year is printed
  without padding, which is what every platform prints from the year 1000 on.\<close>

definition strftime_Ymd :: "int \<Rightarrow> string" where
  "strftime_Ymd d =
     (case ord2ymd d of (y, m, dd) \<Rightarrow> str_int y @ ''-'' @ pad2 m @ ''-'' @ pad2 dd)"

definition strftime_Bd :: "int \<Rightarrow> string" where
  "strftime_Bd d = (case ord2ymd d of (y, m, dd) \<Rightarrow> MONTHS ! (m - 1) @ '' '' @ pad2 dd)"

definition strftime_BdY :: "int \<Rightarrow> string" where
  "strftime_BdY d =
     (case ord2ymd d of (y, m, dd) \<Rightarrow> MONTHS ! (m - 1) @ '' '' @ pad2 dd @ '', '' @ str_int y)"

definition strftime_HMS :: "datetime \<Rightarrow> string" where
  "strftime_HMS t = pad2 (hour t) @ '':'' @ pad2 (minute t) @ '':'' @ pad2 (second t)"

subsection \<open>Configuration and calendar helpers\<close>

definition DAYS :: "string list" where
  "DAYS = [''Monday'', ''Tuesday'', ''Wednesday'', ''Thursday'', ''Friday'', ''Saturday'',
           ''Sunday'']"

definition COLLECTION_DAYS :: "int list" where
  "COLLECTION_DAYS = [1, 2, 3, 4, 5]"

definition day_name_of :: "int \<Rightarrow> string" where
  "day_name_of d = DAYS ! nat (weekday d)"

definition is_collection_day :: "datetime \<Rightarrow> bool" where
  "is_collection_day now = (weekday (ordinal now) \<in> set COLLECTION_DAYS)"

definition is_report_day :: "datetime \<Rightarrow> bool" where
  "is_report_day now = (weekday (ordinal now) = 6)"

definition minus_days :: "datetime \<Rightarrow> int \<Rightarrow> datetime" where
  "minus_days t k = t\<lparr>ordinal := ordinal t - k\<rparr>"

definition plus_days :: "datetime \<Rightarrow> int \<Rightarrow> datetime" where
  "plus_days t k = t\<lparr>ordinal := ordinal t + k\<rparr>"

definition get_week_range :: "datetime \<Rightarrow> int \<times> int" where
  "get_week_range today =
     (let current_weekday = weekday (ordinal today);
          days_since_tuesday =
            (if current_weekday = 6 then 5
             else if current_weekday \<ge> 1 then current_weekday - 1
             else 6);
          tuesday = minus_days today days_since_tuesday;
          saturday = plus_days tuesday 4
      in (ordinal tuesday, ordinal saturday))"

subsection \<open>Floating-point numbers and running totals\<close>

text \<open>
  What the source asks of Python's floats. \<open>float_of s\<close> is \<^verbatim>\<open>float(s)\<close>, with
  \<open>None\<close> where it raises \<^verbatim>\<open>ValueError\<close>; \<open>fzero\<close> is the float that the integer
  \<^verbatim>\<open>0\<close> becomes when a float is added to it; \<open>fadd\<close> is \<^verbatim>\<open>+\<close>; \<open>fpos x\<close> is
  \<^verbatim>\<open>x > 0\<close>; \<open>fmt2 x\<close> is \<^verbatim>\<open>format(x, '.2f')\<close>.
\<close>

record 'f float_ops =
  float_of :: "string \<Rightarrow> 'f option"
  fzero :: "'f"
  fadd :: "'f \<Rightarrow> 'f \<Rightarrow> 'f"
  fpos :: "'f \<Rightarrow> bool"
  fmt2 :: "'f \<Rightarrow> string"

text \<open>A running total starts as the integer \<^verbatim>\<open>0\<close> and is a float once an amount has
  been added to it.\<close>

datatype 'f total = Int_0 | Float 'f

definition add_amount :: "'f float_ops \<Rightarrow> 'f total \<Rightarrow> 'f \<Rightarrow> 'f total" where
  "add_amount F t a = (case t of Int_0 \<Rightarrow> Float (fadd F (fzero F) a) | Float x \<Rightarrow> Float (fadd F x a))"

definition is_positive :: "'f float_ops \<Rightarrow> 'f total \<Rightarrow> bool" where
  "is_positive F t = (case t of Int_0 \<Rightarrow> False | Float x \<Rightarrow> fpos F x)"

definition fmt_total :: "'f float_ops \<Rightarrow> 'f total \<Rightarrow> string" where
  "fmt_total F t = (case t of Int_0 \<Rightarrow> ''0.00'' | Float x \<Rightarrow> fmt2 F x)"

text \<open>\<^verbatim>\<open>sum(...)\<close> over amounts starts from the integer \<^verbatim>\<open>0\<close> and adds from the left.\<close>

definition sum_amounts :: "'f float_ops \<Rightarrow> 'f list \<Rightarrow> 'f total" where
  "sum_amounts F xs = foldl (add_amount F) Int_0 xs"

subsection \<open>The ledger and the world around it\<close>

record 'f payment =
  username :: string
  amount :: "'f"
  date :: string
  time :: string
  day :: string
  recorded_by :: string

text \<open>The document that \<^verbatim>\<open>load_data\<close> returns and \<^verbatim>\<open>save_data\<close> writes: its three
  keys are always there.\<close>

record 'f data =
  payments :: "'f payment list"
  members :: "string list"
  report_channel :: "int option"

text \<open>The effects: the data file (\<open>None\<close> while it does not exist), the number of
  calls of \<^verbatim>\<open>save_data\<close>, and the messages sent, in order.\<close>

record 'f world =
  data_file :: "'f data option"
  saves :: nat
  sent :: "string list"

definition load_data :: "'f world \<Rightarrow> 'f data" where
  "load_data w =
     (case data_file w of
        Some d \<Rightarrow> d
      | None \<Rightarrow> \<lparr>payments = [], members = [], report_channel = None\<rparr>)"

definition save_data :: "'f data \<Rightarrow> 'f world \<Rightarrow> 'f world" where
  "save_data d w = w\<lparr>data_file := Some d, saves := saves w + 1\<rparr>"

definition send :: "string \<Rightarrow> 'f world \<Rightarrow> 'f world" where
  "send msg w = w\<lparr>sent := sent w @ [msg]\<rparr>"

subsection \<open>The symbols of the messages, as UTF-8\<close>

definition BAR_CHART :: string where "BAR_CHART = [CHR 0xF0, CHR 0x9F, CHR 0x93, CHR 0x8A]"
definition TEAR_OFF_CALENDAR :: string where "TEAR_OFF_CALENDAR = [CHR 0xF0, CHR 0x9F, CHR 0x93, CHR 0x86]"
definition CLIPBOARD :: string where "CLIPBOARD = [CHR 0xF0, CHR 0x9F, CHR 0x93, CHR 0x8B]"
definition CALENDAR :: string where "CALENDAR = [CHR 0xF0, CHR 0x9F, CHR 0x93, CHR 0x85]"
definition BULLET :: string where "BULLET = [CHR 0xE2, CHR 0x80, CHR 0xA2]"
definition BUSTS :: string where "BUSTS = [CHR 0xF0, CHR 0x9F, CHR 0x91, CHR 0xA5]"
definition BUST :: string where "BUST = [CHR 0xF0, CHR 0x9F, CHR 0x91, CHR 0xA4]"
definition CHECK_MARK :: string where "CHECK_MARK = [CHR 0xE2, CHR 0x9C, CHR 0x85]"
definition CROSS_MARK :: string where "CROSS_MARK = [CHR 0xE2, CHR 0x9D, CHR 0x8C]"
definition MONEY_BAG :: string where "MONEY_BAG = [CHR 0xF0, CHR 0x9F, CHR 0x92, CHR 0xB0]"
definition BANKNOTE :: string where "BANKNOTE = [CHR 0xF0, CHR 0x9F, CHR 0x92, CHR 0xB5]"
definition WARNING_SIGN :: string where
  "WARNING_SIGN = [CHR 0xE2, CHR 0x9A, CHR 0xA0, CHR 0xEF, CHR 0xB8, CHR 0x8F]"
definition HOURGLASS :: string where "HOURGLASS = [CHR 0xE2, CHR 0x8F, CHR 0xB3]"
definition PARTY_POPPER :: string where "PARTY_POPPER = [CHR 0xF0, CHR 0x9F, CHR 0x8E, CHR 0x89]"
definition MEMO :: string where "MEMO = [CHR 0xF0, CHR 0x9F, CHR 0x93, CHR 0x9D]"
definition LOUDSPEAKER :: string where "LOUDSPEAKER = [CHR 0xF0, CHR 0x9F, CHR 0x93, CHR 0xA2]"

subsection \<open>The weekly report\<close>

text \<open>A dictionary is an association list in insertion order with distinct keys:
  \<^const>\<open>AList.update\<close> stores a value (at the end for a new key, in place for an old
  one), \<^const>\<open>AList.map_entry\<close> changes the value of a key that is there, and
  \<^const>\<open>map_of\<close> looks a key up.\<close>

definition dict_from_keys :: "string list \<Rightarrow> 'v \<Rightarrow> (string \<times> 'v) list" where
  "dict_from_keys ks v = fold (\<lambda>k. AList.update k v) ks []"

text \<open>\<^verbatim>\<open>member_days[member]\<close>: the key is always there, since \<^verbatim>\<open>member_days\<close> and
  \<^verbatim>\<open>member_totals\<close> are built from the same keys and no key is added later.\<close>

definition days_of :: "(string \<times> string list) list \<Rightarrow> string \<Rightarrow> string list" where
  "days_of md k = (case map_of md k of Some ds \<Rightarrow> ds | None \<Rightarrow> [])"

record 'f report_state =
  report :: string
  week_total :: "'f total"
  member_totals :: "(string \<times> 'f total) list"
  member_days :: "(string \<times> string list) list"

text \<open>The body of \<^verbatim>\<open>for p in day_payments\<close>; the daily total is the second component.\<close>

definition payment_step ::
  "'f float_ops \<Rightarrow> string \<Rightarrow> 'f payment \<Rightarrow> 'f report_state \<times> 'f total \<Rightarrow> 'f report_state \<times> 'f total"
where
  "payment_step F day_name p acc =
     (case acc of (st, daily_total) \<Rightarrow>
        let st1 = st\<lparr>report := report st @ ''   '' @ BULLET @ '' @'' @ username p @ '': $''
                                  @ fmt2 F (amount p) @ ''\<newline>''\<rparr>;
            daily_total' = add_amount F daily_total (amount p);
            st2 = st1\<lparr>week_total := add_amount F (week_total st1) (amount p)\<rparr>;
            st3 = (if map_of (member_totals st2) (username p) \<noteq> None
                   then st2\<lparr>member_totals :=
                               AList.map_entry (username p) (\<lambda>t. add_amount F t (amount p))
                                 (member_totals st2),
                             member_days :=
                               AList.map_entry (username p) (\<lambda>ds. ds @ [take 3 day_name])
                                 (member_days st2)\<rparr>
                   else st2)
        in (st3, daily_total'))"

text \<open>The body of the \<^verbatim>\<open>while\<close> loop, for one date.\<close>

definition day_step :: "'f float_ops \<Rightarrow> 'f data \<Rightarrow> int \<Rightarrow> 'f report_state \<Rightarrow> 'f report_state" where
  "day_step F d current_date st =
     (let date_str = strftime_Ymd current_date;
          day_name = day_name_of current_date;
          day_payments = filter (\<lambda>p. date p = date_str) (payments d);
          st1 = st\<lparr>report := report st @ ''\<newline>'' @ CALENDAR @ '' '' @ day_name @ '' (''
                                 @ date_str @ ''):\<newline>''\<rparr>
      in if day_payments = []
         then st1\<lparr>report := report st1 @ ''   No payments recorded\<newline>''\<rparr>
         else (case fold (payment_step F day_name) day_payments (st1, Int_0) of
                 (st2, daily_total) \<Rightarrow>
                   st2\<lparr>report := report st2 @ ''   Daily Total: $'' @ fmt_total F daily_total
                                     @ ''\<newline>''\<rparr>))"

text \<open>\<^verbatim>\<open>while current_date <= saturday: ...; current_date += timedelta(days=1)\<close>.\<close>

function week_loop ::
  "'f float_ops \<Rightarrow> 'f data \<Rightarrow> int \<Rightarrow> int \<Rightarrow> 'f report_state \<Rightarrow> 'f report_state"
where
  "week_loop F d current_date saturday st =
     (if current_date \<le> saturday
      then week_loop F d (current_date + 1) saturday (day_step F d current_date st)
      else st)"
  by pat_completeness auto
termination
  by (relation "measure (\<lambda>(F, d, c, s, st). nat (s + 1 - c))") auto

declare week_loop.simps [simp del]

text \<open>One line of the member summary.\<close>

definition summary_line ::
  "'f float_ops \<Rightarrow> (string \<times> string list) list \<Rightarrow> string \<times> 'f total \<Rightarrow> string"
where
  "summary_line F md item =
     (case item of (member, tot) \<Rightarrow>
        let status = (if is_positive F tot then CHECK_MARK else CROSS_MARK);
            days = (if days_of md member \<noteq> [] then join '', '' (days_of md member) else ''None'')
        in status @ '' @'' @ member @ '': $'' @ fmt_total F tot @ '' (Days: '' @ days
             @ '')\<newline>'')"

definition report_header :: "int \<Rightarrow> int \<Rightarrow> string" where
  "report_header tuesday saturday =
     ''```\<newline>'' @ replicate 50 CHR ''='' @ ''\<newline>''
     @ BAR_CHART @ '' WEEKLY MONEY COLLECTION REPORT\<newline>''
     @ TEAR_OFF_CALENDAR @ '' '' @ strftime_Bd tuesday @ '' - '' @ strftime_BdY saturday @ ''\<newline>''
     @ replicate 50 CHR ''='' @ ''\<newline>\<newline>''
     @ CLIPBOARD @ '' DAILY BREAKDOWN:\<newline>''
     @ replicate 40 CHR ''-'' @ ''\<newline>''"

definition summary_header :: string where
  "summary_header =
     ''\<newline>'' @ replicate 40 CHR ''-'' @ ''\<newline>''
     @ BUSTS @ '' MEMBER SUMMARY:\<newline>''
     @ replicate 40 CHR ''-'' @ ''\<newline>''"

definition report_footer :: "'f float_ops \<Rightarrow> 'f total \<Rightarrow> string" where
  "report_footer F tot =
     ''\<newline>'' @ replicate 50 CHR ''='' @ ''\<newline>''
     @ MONEY_BAG @ '' WEEKLY TOTAL: $'' @ fmt_total F tot @ ''\<newline>''
     @ replicate 50 CHR ''='' @ ''\<newline>''
     @ ''```''"

text \<open>The state when the \<^verbatim>\<open>while\<close> loop has ended.\<close>

definition run_week :: "'f float_ops \<Rightarrow> 'f data \<Rightarrow> datetime \<Rightarrow> 'f report_state" where
  "run_week F d now =
     (case get_week_range now of (tuesday, saturday) \<Rightarrow>
        week_loop F d tuesday saturday
          \<lparr>report = report_header tuesday saturday,
           week_total = Int_0,
           member_totals = dict_from_keys (members d) Int_0,
           member_days = dict_from_keys (members d) []\<rparr>)"

text \<open>\<^verbatim>\<open>for member, total in member_totals.items()\<close>.\<close>

definition member_summary :: "'f float_ops \<Rightarrow> 'f report_state \<Rightarrow> string" where
  "member_summary F st = concat (map (summary_line F (member_days st)) (member_totals st))"

definition generate_weekly_report :: "'f float_ops \<Rightarrow> 'f data \<Rightarrow> datetime \<Rightarrow> string" where
  "generate_weekly_report F d now =
     (let st = run_week F d now
      in report st @ summary_header @ member_summary F st @ report_footer F (week_total st))"

subsection \<open>The payment-line parser\<close>

text \<open>\<^verbatim>\<open>for i in range(len(parts) - 1, 0, -1)\<close>: the tokens from the last one down to
  index 1, stopping at the first that \<^verbatim>\<open>float\<close> accepts. The result is
  \<^verbatim>\<open>(amount_index, amount)\<close>, or \<open>None\<close> when the loop ends with
  \<^verbatim>\<open>amount is None\<close>.\<close>

fun scan_amount :: "'f float_ops \<Rightarrow> string list \<Rightarrow> nat \<Rightarrow> (nat \<times> 'f) option" where
  "scan_amount F parts 0 = None"
| "scan_amount F parts (Suc i) =
     (case float_of F (parts ! Suc i) of
        Some a \<Rightarrow> Some (Suc i, a)
      | None \<Rightarrow> scan_amount F parts i)"

text \<open>\<^verbatim>\<open>for member in members: if member.lower() == username.lower(): ...\<close>: the first
  member of the list that matches.\<close>

definition match_member :: "string list \<Rightarrow> string \<Rightarrow> string option" where
  "match_member ms name = find (\<lambda>m. lower m = lower name) ms"

text \<open>The first part of \<^verbatim>\<open>parse_payment_line\<close>, down to the line that computes
  \<^verbatim>\<open>username\<close>: the candidate name and the amount, or \<open>None\<close> where the source
  returns \<^verbatim>\<open>None, None\<close>.\<close>

definition extract_name_amount :: "'f float_ops \<Rightarrow> string \<Rightarrow> (string \<times> 'f) option" where
  "extract_name_amount F line0 =
     (let line = lower (strip line0) in
      if \<not> startswith line ''@'' then None
      else
        let line' = remove_all ''paid'' (remove_all '' paid'' line);
            parts = split_ws line'
        in if length parts < 2 then None
           else (case scan_amount F parts (length parts - 1) of
                   None \<Rightarrow> None
                 | Some (amount_index, amt) \<Rightarrow>
                     Some (drop 1 (join '' '' (take amount_index parts)), amt)))"

text \<open>The whole function: the second part matches the candidate name against the
  members. The result is the pair that the source returns, \<^verbatim>\<open>None\<close> being \<open>None\<close>
  in either component.\<close>

definition parse_payment_line ::
  "'f float_ops \<Rightarrow> string \<Rightarrow> string list \<Rightarrow> string option \<times> 'f option"
where
  "parse_payment_line F line0 ms =
     (case extract_name_amount F line0 of
        None \<Rightarrow> (None, None)
      | Some (name, amt) \<Rightarrow>
          (case match_member ms name of
             Some member \<Rightarrow> (Some member, Some amt)
           | None \<Rightarrow> (Some name, Some amt)))"

subsection \<open>Recording payments: the message handler\<close>

record message =
  author :: string
  content :: string

text \<open>The truth value of \<^verbatim>\<open>member_match\<close> in \<^verbatim>\<open>if not member_match\<close>: \<^verbatim>\<open>None\<close> and
  the empty string are false.\<close>

definition truthy :: "string option \<Rightarrow> bool" where
  "truthy m = (case m of None \<Rightarrow> False | Some s \<Rightarrow> s \<noteq> [])"

definition not_in_list_warning :: "string \<Rightarrow> string" where
  "not_in_list_warning name = WARNING_SIGN @ '' **@'' @ name @ ''** not in member list''"

text \<open>
  The body of \<^verbatim>\<open>for line in lines\<close>. The state is the data, the list
  \<^verbatim>\<open>recorded_payments\<close> and the list \<^verbatim>\<open>errors\<close>. All clock readings of one call of
  the handler are the one reading \<open>now\<close>. The parser never returns a name without an
  amount, so the branch for that result leaves the state as it is.
\<close>

definition line_step ::
  "'f float_ops \<Rightarrow> datetime \<Rightarrow> string \<Rightarrow> string list \<Rightarrow> string
     \<Rightarrow> 'f data \<times> 'f payment list \<times> string list \<Rightarrow> 'f data \<times> 'f payment list \<times> string list"
where
  "line_step F now who ms line0 acc =
     (case acc of (d, recorded_payments, errors) \<Rightarrow>
        let line = strip line0 in
        if \<not> startswith line ''@'' then acc
        else (case parse_payment_line F line ms of
                (None, _) \<Rightarrow> acc
              | (Some name, None) \<Rightarrow> acc
              | (Some name, Some amt) \<Rightarrow>
                  let member_match = match_member ms name in
                  if \<not> truthy member_match
                  then (d, recorded_payments, errors @ [not_in_list_warning name])
                  else
                    let payment = \<lparr>username = (case member_match of Some m \<Rightarrow> m | None \<Rightarrow> []),
                                     amount = amt,
                                     date = strftime_Ymd (ordinal now),
                                     time = strftime_HMS now,
                                     day = day_name_of (ordinal now),
                                     recorded_by = who\<rparr>
                    in (d\<lparr>payments := payments d @ [payment]\<rparr>,
                        recorded_payments @ [payment], errors)))"

definition process_lines ::
  "'f float_ops \<Rightarrow> datetime \<Rightarrow> string \<Rightarrow> string list \<Rightarrow> string list
     \<Rightarrow> 'f data \<Rightarrow> 'f data \<times> 'f payment list \<times> string list"
where
  "process_lines F now who ms lines d = fold (line_step F now who ms) lines (d, [], [])"

definition payment_line :: "'f float_ops \<Rightarrow> 'f payment \<Rightarrow> string" where
  "payment_line F p = BULLET @ '' @'' @ username p @ '': $'' @ fmt2 F (amount p) @ ''\<newline>''"

text \<open>The reply after at least one payment was recorded.\<close>

definition recorded_response ::
  "'f float_ops \<Rightarrow> datetime \<Rightarrow> string list \<Rightarrow> 'f data \<Rightarrow> 'f payment list \<Rightarrow> string list \<Rightarrow> string"
where
  "recorded_response F now ms d recorded_payments errors =
     (let today_str = strftime_Ymd (ordinal now);
          today_payments = filter (\<lambda>p. date p = today_str) (payments d);
          today_total = sum_amounts F (map amount today_payments);
          paid_users = set (map username today_payments);
          pending = filter (\<lambda>m. m \<notin> paid_users) ms;
          response1 =
            (if length recorded_payments = 1
             then (case recorded_payments of
                     p # _ \<Rightarrow>
                       CHECK_MARK @ '' **Payment Recorded!**\<newline>''
                       @ BUST @ '' Member: **@'' @ username p @ ''**\<newline>''
                       @ BANKNOTE @ '' Amount: **$'' @ fmt2 F (amount p) @ ''**\<newline>''
                       @ CALENDAR @ '' '' @ day p @ '', '' @ date p @ ''\<newline>\<newline>''
                   | [] \<Rightarrow> [])
             else CHECK_MARK @ '' **'' @ str_nat (length recorded_payments)
                  @ '' Payments Recorded!**\<newline>''
                  @ concat (map (payment_line F) recorded_payments) @ ''\<newline>'');
          response2 = response1 @ BAR_CHART @ '' **Today's Total: $'' @ fmt_total F today_total
                      @ ''**\<newline>'';
          response3 =
            (if pending \<noteq> []
             then response2 @ HOURGLASS @ '' Pending: ''
                  @ join '', '' (map (\<lambda>u. ''@'' @ u) pending)
             else response2 @ PARTY_POPPER @ '' All members have paid today!'')
      in if errors \<noteq> [] then response3 @ ''\<newline>\<newline>'' @ join ''\<newline>'' errors else response3)"

text \<open>
  \<^verbatim>\<open>on_message\<close>. \<open>bot_user\<close> is the bot's own name. The call of
  \<^verbatim>\<open>bot.process_commands\<close> that ends every path hands the message to the command
  framework and is no part of the embedding.
\<close>

definition on_message ::
  "'f float_ops \<Rightarrow> datetime \<Rightarrow> string \<Rightarrow> message \<Rightarrow> 'f world \<Rightarrow> 'f world"
where
  "on_message F now bot_user msg w =
     (if author msg = bot_user then w
      else
        let text = strip (content msg) in
        if CHR ''@'' \<in> set text \<and> list_ex isdigit text
        then
          if \<not> is_collection_day now
          then send (CROSS_MARK @ '' Today is '' @ day_name_of (ordinal now)
                     @ ''. Collection is only **Tuesday to Saturday**!'') w
          else
            let d = load_data w;
                ms = members d;
                lines = split_lines text
            in (case process_lines F now (author msg) ms lines d of
                  (d', recorded_payments, errors) \<Rightarrow>
                    if recorded_payments \<noteq> []
                    then send (recorded_response F now ms d' recorded_payments errors)
                           (save_data d' w)
                    else if errors \<noteq> []
                    then send (join ''\<newline>'' errors
                               @ ''\<newline>\<newline>Use `/addmember name` to add members.'') w
                    else w)
        else w)"

subsection \<open>The roster commands\<close>

record interaction =
  channel_id :: int
  channel_name :: string

text \<open>\<^verbatim>\<open>name.lower().replace("@", "")\<close>.\<close>

definition normalize_name :: "string \<Rightarrow> string" where
  "normalize_name name = remove_all ''@'' (lower name)"

definition setup_cmd ::
  "interaction \<Rightarrow> string \<Rightarrow> string \<Rightarrow> string \<Rightarrow> string \<Rightarrow> 'f world \<Rightarrow> 'f world"
where
  "setup_cmd i member1 member2 member3 member4 w =
     (let d = load_data w;
          ms = map normalize_name [member1, member2, member3, member4];
          d' = d\<lparr>members := ms, report_channel := Some (channel_id i)\<rparr>
      in send (CHECK_MARK @ '' **Bot Setup Complete!**\<newline>\<newline>''
               @ BUSTS @ '' **Members:** '' @ join '', '' (map (\<lambda>m. ''@'' @ m) ms) @ ''\<newline>''
               @ LOUDSPEAKER @ '' **Report Channel:** #'' @ channel_name i @ ''\<newline>\<newline>''
               @ MEMO @ '' **How to record payments:**\<newline>''
               @ ''`@username amount paid` (e.g., `@john 50 paid`)\<newline>\<newline>''
               @ CALENDAR @ '' **Schedule:**\<newline>''
               @ BULLET @ '' **Tue-Sat:** Collection days\<newline>''
               @ BULLET @ '' **Sunday 9 AM:** Automatic weekly report'')
           (save_data d' w))"

definition already_in_list :: "string \<Rightarrow> string" where
  "already_in_list name = WARNING_SIGN @ '' **@'' @ name @ ''** is already in the list!''"

definition addmember :: "string \<Rightarrow> 'f world \<Rightarrow> 'f world" where
  "addmember name0 w =
     (let d = load_data w;
          name = normalize_name name0
      in if name \<in> set (members d)
         then send (already_in_list name) w
         else send (CHECK_MARK @ '' Added **@'' @ name @ ''** to the member list!'')
                (save_data (d\<lparr>members := members d @ [name]\<rparr>) w))"

definition removemember :: "string \<Rightarrow> 'f world \<Rightarrow> 'f world" where
  "removemember name0 w =
     (let d = load_data w;
          name = normalize_name name0
      in if name \<notin> set (members d)
         then send (WARNING_SIGN @ '' **@'' @ name @ ''** is not in the list!'') w
         else send (CHECK_MARK @ '' Removed **@'' @ name @ ''** from the member list!'')
                (save_data (d\<lparr>members := remove1 name (members d)\<rparr>) w))"

definition clear :: "'f world \<Rightarrow> 'f world" where
  "clear w =
     send (CHECK_MARK @ '' All payment data cleared! Ready for new week.'')
       (save_data ((load_data w)\<lparr>payments := []\<rparr>) w)"

definition report_cmd :: "'f float_ops \<Rightarrow> datetime \<Rightarrow> 'f world \<Rightarrow> 'f world" where
  "report_cmd F now w = send (generate_weekly_report F (load_data w) now) w"

subsection \<open>Whole amounts: operations to run the definitions on\<close>

text \<open>
  The part of Python's floats that is exact: the whole numbers. \<^verbatim>\<open>float\<close> is given on
  the strings of one to fifteen decimal digits, whose values are floats exactly, and the
  sums of such values below \<open>2\<^sup>5\<^sup>3\<close> are exact as well; \<^verbatim>\<open>:.2f\<close> prints a whole
  number with two zeros. On every other string \<open>float_of\<close> is \<open>None\<close> here, so the
  examples below, which run the source's functions on these operations, have only tokens
  of digits and tokens that \<^verbatim>\<open>float\<close> rejects as well (names such as \<open>ann\<close> or \<open>@john\<close>).
\<close>

definition digits_value :: "string \<Rightarrow> int" where
  "digits_value s = foldl (\<lambda>a c. 10 * a + (of_char c - 48)) 0 s"

definition whole_ops :: "int float_ops" where
  "whole_ops =
     \<lparr>float_of = (\<lambda>s. if s \<noteq> [] \<and> length s \<le> 15 \<and> list_all isdigit s
                      then Some (digits_value s) else None),
      fzero = 0,
      fadd = (\<lambda>x y. x + y),
      fpos = (\<lambda>x. 0 < x),
      fmt2 = (\<lambda>x. str_int x @ ''.00'')\<rparr>"

subsection \<open>Predicates of the properties\<close>

text \<open>Every name in the roster is in lower case.\<close>

definition lower_roster :: "'f world \<Rightarrow> bool" where
  "lower_roster w = list_all (\<lambda>m. lower m = m) (members (load_data w))"

subsection \<open>The report, described day by day\<close>

text \<open>
  What the report holds, in the words of its specification, to set against the loops of
  the source: the payments of one date, the block of text of one date, the dates of the
  week, the payments of the week with their dates in the order of the report, and the
  roster without repetitions.
\<close>

definition day_payments :: "'f data \<Rightarrow> int \<Rightarrow> 'f payment list" where
  "day_payments d c = filter (\<lambda>p. date p = strftime_Ymd c) (payments d)"

definition listing_line :: "'f float_ops \<Rightarrow> 'f payment \<Rightarrow> string" where
  "listing_line F p =
     ''   '' @ BULLET @ '' @'' @ username p @ '': $'' @ fmt2 F (amount p) @ ''\<newline>''"

definition day_heading :: "int \<Rightarrow> string" where
  "day_heading c =
     ''\<newline>'' @ CALENDAR @ '' '' @ day_name_of c @ '' ('' @ strftime_Ymd c @ ''):\<newline>''"

definition day_block :: "'f float_ops \<Rightarrow> 'f data \<Rightarrow> int \<Rightarrow> string" where
  "day_block F d c =
     day_heading c
     @ (if day_payments d c = [] then ''   No payments recorded\<newline>''
        else concat (map (listing_line F) (day_payments d c))
             @ ''   Daily Total: $''
             @ fmt_total F (sum_amounts F (map amount (day_payments d c))) @ ''\<newline>'')"

definition week_dates :: "datetime \<Rightarrow> int list" where
  "week_dates now = (case get_week_range now of (tuesday, saturday) \<Rightarrow> [tuesday..saturday])"

definition entries :: "'f data \<Rightarrow> int list \<Rightarrow> (int \<times> 'f payment) list" where
  "entries d cs = concat (map (\<lambda>c. map (Pair c) (day_payments d c)) cs)"

definition week_entries :: "'f data \<Rightarrow> datetime \<Rightarrow> (int \<times> 'f payment) list" where
  "week_entries d now = entries d (week_dates now)"

definition entries_of :: "string \<Rightarrow> (int \<times> 'f payment) list \<Rightarrow> (int \<times> 'f payment) list" where
  "entries_of m es = filter (\<lambda>e. username (snd e) = m) es"

definition first_occurrences :: "string list \<Rightarrow> string list" where
  "first_occurrences ms = rev (remdups (rev ms))"

text \<open>The number of places of a text where a pattern starts.\<close>

fun starts_here :: "string \<Rightarrow> string \<Rightarrow> bool" where
  "starts_here [] s = True"
| "starts_here (p # ps) [] = False"
| "starts_here (p # ps) (c # cs) = (if p = c then starts_here ps cs else False)"

fun count_occurrences :: "string \<Rightarrow> string \<Rightarrow> nat" where
  "count_occurrences pat [] = 0"
| "count_occurrences pat (c # cs) =
     (if starts_here pat (c # cs) then Suc (count_occurrences pat cs)
      else count_occurrences pat cs)"

subsection \<open>The lines of a batch\<close>

text \<open>The name that the handler gets from a line of a batch: \<open>None\<close> when the line is
  passed over as no payment line. The lines whose name matches the roster, and those whose
  name does not.\<close>

definition line_name :: "'f float_ops \<Rightarrow> string list \<Rightarrow> string \<Rightarrow> string option" where
  "line_name F ms line =
     (if startswith (strip line) ''@'' then fst (parse_payment_line F (strip line) ms) else None)"

definition matched_lines :: "'f float_ops \<Rightarrow> string list \<Rightarrow> string list \<Rightarrow> string list" where
  "matched_lines F ms lines =
     filter (\<lambda>l. case line_name F ms l of Some n \<Rightarrow> match_member ms n \<noteq> None | None \<Rightarrow> False)
       lines"

definition unmatched_lines :: "'f float_ops \<Rightarrow> string list \<Rightarrow> string list \<Rightarrow> string list" where
  "unmatched_lines F ms lines =
     filter (\<lambda>l. case line_name F ms l of Some n \<Rightarrow> match_member ms n = None | None \<Rightarrow> False)
       lines"

section \<open>Properties\<close>

subsection \<open>The calendar\<close>

lemma weekday_range: "0 \<le> weekday d \<and> weekday d \<le> 6"
  by (simp add: weekday_def)

lemma weekday_cases:
  "weekday d = 0 \<or> weekday d = 1 \<or> weekday d = 2 \<or> weekday d = 3 \<or> weekday d = 4
     \<or> weekday d = 5 \<or> weekday d = 6"
  using weekday_range [of d] by arith

lemma day_name_of_simps:
  "weekday d = 0 \<Longrightarrow> day_name_of d = ''Monday''"
  "weekday d = 1 \<Longrightarrow> day_name_of d = ''Tuesday''"
  "weekday d = 2 \<Longrightarrow> day_name_of d = ''Wednesday''"
  "weekday d = 3 \<Longrightarrow> day_name_of d = ''Thursday''"
  "weekday d = 4 \<Longrightarrow> day_name_of d = ''Friday''"
  "weekday d = 5 \<Longrightarrow> day_name_of d = ''Saturday''"
  "weekday d = 6 \<Longrightarrow> day_name_of d = ''Sunday''"
  by (simp_all add: day_name_of_def DAYS_def)

text \<open>The table \<^const>\<open>DAYS\<close> names the seven values of \<^const>\<open>weekday\<close> apart.\<close>

lemma day_name_of_iff:
  "day_name_of d = ''Monday'' \<longleftrightarrow> weekday d = 0"
  "day_name_of d = ''Tuesday'' \<longleftrightarrow> weekday d = 1"
  "day_name_of d = ''Wednesday'' \<longleftrightarrow> weekday d = 2"
  "day_name_of d = ''Thursday'' \<longleftrightarrow> weekday d = 3"
  "day_name_of d = ''Friday'' \<longleftrightarrow> weekday d = 4"
  "day_name_of d = ''Saturday'' \<longleftrightarrow> weekday d = 5"
  "day_name_of d = ''Sunday'' \<longleftrightarrow> weekday d = 6"
  using weekday_cases [of d] by (auto simp: day_name_of_simps)

text \<open>
  Claim C8. For every clock reading, \<^const>\<open>is_collection_day\<close> holds exactly when the
  day of the week is Tuesday, Wednesday, Thursday, Friday or Saturday, it fails exactly
  on Monday and Sunday, and \<^const>\<open>is_report_day\<close> holds exactly on Sunday.
\<close>

theorem collection_and_report_days:
  "(is_collection_day now \<longleftrightarrow>
      day_name_of (ordinal now) \<in> {''Tuesday'', ''Wednesday'', ''Thursday'', ''Friday'', ''Saturday''})
   \<and> (\<not> is_collection_day now \<longleftrightarrow> day_name_of (ordinal now) \<in> {''Monday'', ''Sunday''})
   \<and> (is_report_day now \<longleftrightarrow> day_name_of (ordinal now) = ''Sunday'')"
  using weekday_cases [of "ordinal now"]
  by (auto simp: is_collection_day_def is_report_day_def COLLECTION_DAYS_def day_name_of_iff)

text \<open>
  Claim C2. For every date \<open>D\<close> of the clock reading, \<^const>\<open>get_week_range\<close> returns a
  Tuesday and the Saturday four days after it. On a Sunday the pair is \<open>(D - 5, D - 1)\<close>;
  from Tuesday to Saturday the Tuesday is \<open>D\<close> minus the days since Tuesday, whose index
  is 1 (so a Wednesday gives \<open>(D - 1, D + 3)\<close>); on a Monday the pair is
  \<open>(D - 6, D - 2)\<close>.
\<close>

theorem get_week_range_by_weekday:
  "snd (get_week_range now) = fst (get_week_range now) + 4
   \<and> (day_name_of (ordinal now) = ''Sunday'' \<longrightarrow>
        get_week_range now = (ordinal now - 5, ordinal now - 1))
   \<and> (day_name_of (ordinal now) \<in> {''Tuesday'', ''Wednesday'', ''Thursday'', ''Friday'', ''Saturday''} \<longrightarrow>
        fst (get_week_range now) = ordinal now - (weekday (ordinal now) - 1))
   \<and> (day_name_of (ordinal now) = ''Wednesday'' \<longrightarrow>
        get_week_range now = (ordinal now - 1, ordinal now + 3))
   \<and> (day_name_of (ordinal now) = ''Monday'' \<longrightarrow>
        get_week_range now = (ordinal now - 6, ordinal now - 2))"
  by (auto simp: get_week_range_def Let_def minus_days_def plus_days_def day_name_of_iff)

text \<open>The theorem at Sunday 10, Wednesday 13, Monday 11 and Friday 15 March 2024.\<close>

theorem get_week_range_by_weekday_witness:
  "get_week_range \<lparr>ordinal = 738955, hour = 9, minute = 0, second = 0\<rparr> = (738950, 738954)
   \<and> get_week_range \<lparr>ordinal = 738958, hour = 9, minute = 0, second = 0\<rparr> = (738957, 738961)
   \<and> get_week_range \<lparr>ordinal = 738956, hour = 9, minute = 0, second = 0\<rparr> = (738950, 738954)
   \<and> fst (get_week_range \<lparr>ordinal = 738960, hour = 9, minute = 0, second = 0\<rparr>) = 738957"
proof -
  have sun: "day_name_of 738955 = ''Sunday''"
    and wed: "day_name_of 738958 = ''Wednesday''"
    and mon: "day_name_of 738956 = ''Monday''"
    and fri: "day_name_of 738960 = ''Friday''" and wfri: "weekday 738960 = 4"
    by (simp_all add: day_name_of_iff weekday_def)
  show ?thesis
    using get_week_range_by_weekday [of "\<lparr>ordinal = 738955, hour = 9, minute = 0, second = 0\<rparr>"]
      get_week_range_by_weekday [of "\<lparr>ordinal = 738958, hour = 9, minute = 0, second = 0\<rparr>"]
      get_week_range_by_weekday [of "\<lparr>ordinal = 738956, hour = 9, minute = 0, second = 0\<rparr>"]
      get_week_range_by_weekday [of "\<lparr>ordinal = 738960, hour = 9, minute = 0, second = 0\<rparr>"]
    by (simp add: sun wed mon fri wfri)
qed

subsection \<open>Strings\<close>

lemma lower_char_idem: "lower_char (lower_char c) = lower_char c"
  by (simp add: lower_char_def Let_def)

lemma lower_idem: "lower (lower s) = lower s"
  by (simp add: lower_def lower_char_idem)

lemma lower_empty_iff: "lower s = [] \<longleftrightarrow> s = []"
  by (simp add: lower_def)

lemma lower_fixed_iff: "lower s = s \<longleftrightarrow> (\<forall>c \<in> set s. lower_char c = c)"
  unfolding lower_def by (induction s) auto

lemma startswith_at: "startswith s ''@'' \<longleftrightarrow> (\<exists>cs. s = CHR ''@'' # cs)"
  by (cases s) (auto simp: startswith_def)

lemma set_remove_all: "set (remove_all old s) \<subseteq> set s"
proof (induction old s rule: remove_all.induct)
  case (1 old)
  show ?case by simp
next
  case (2 old c cs)
  show ?case
  proof (cases "old \<noteq> [] \<and> startswith (c # cs) old")
    case True
    have "set (drop (length old) (c # cs)) \<subseteq> set (c # cs)" by (rule set_drop_subset)
    with 2 True show ?thesis by auto
  next
    case False
    with 2 show ?thesis by auto
  qed
qed

lemma set_strip: "set (strip s) \<subseteq> set s"
proof
  fix c assume "c \<in> set (strip s)"
  then have "c \<in> set (dropWhile isspace (rev (dropWhile isspace s)))" by (simp add: strip_def)
  then have "c \<in> set (rev (dropWhile isspace s))" by (rule set_dropWhileD)
  then have "c \<in> set (dropWhile isspace s)" by simp
  then show "c \<in> set s" by (rule set_dropWhileD)
qed

lemma set_split_ws: "t \<in> set (split_ws s) \<Longrightarrow> set t \<subseteq> set s"
proof (induction s arbitrary: t rule: split_ws.induct)
  case 1
  then show ?case by simp
next
  case (2 c cs)
  show ?case
  proof (cases "isspace c")
    case True
    with 2 show ?thesis by auto
  next
    case False
    from 2(3) False have "t = takeWhile (\<lambda>x. \<not> isspace x) (c # cs)
        \<or> t \<in> set (split_ws (dropWhile (\<lambda>x. \<not> isspace x) cs))" by simp
    then show ?thesis
    proof
      assume "t = takeWhile (\<lambda>x. \<not> isspace x) (c # cs)"
      then show ?thesis using set_takeWhileD by fastforce
    next
      assume "t \<in> set (split_ws (dropWhile (\<lambda>x. \<not> isspace x) cs))"
      with 2(2) False have "set t \<subseteq> set (dropWhile (\<lambda>x. \<not> isspace x) cs)" by simp
      then show ?thesis using set_dropWhileD by fastforce
    qed
  qed
qed

lemma set_join: "set (join sep xs) \<subseteq> set sep \<union> \<Union> (set ` set xs)"
  by (induction sep xs rule: join.induct) auto

lemma join_take_head:
  "1 \<le> k \<Longrightarrow> \<exists>r. join sep (take k ((c # x) # xs)) = c # r"
proof -
  assume "1 \<le> k"
  then obtain n where k: "k = Suc n" by (cases k) auto
  define ys where "ys = take n xs"
  have "join sep (take k ((c # x) # xs)) = join sep ((c # x) # ys)"
    by (simp add: k ys_def)
  then show ?thesis by (cases ys) simp_all
qed

lemma split_ws_at_head:
  "\<exists>x xs. split_ws (CHR ''@'' # cs) = (CHR ''@'' # x) # xs"
  by (simp add: isspace_def)

lemma remove_paid_at_head:
  "remove_all ''paid'' (remove_all '' paid'' (CHR ''@'' # cs))
     = CHR ''@'' # remove_all ''paid'' (remove_all '' paid'' cs)"
  by (simp add: startswith_def)

subsection \<open>The parser\<close>

lemma scan_amount_None:
  "scan_amount F parts n = None \<longleftrightarrow> (\<forall>i. 1 \<le> i \<and> i \<le> n \<longrightarrow> float_of F (parts ! i) = None)"
proof (induction n)
  case 0
  show ?case by simp
next
  case (Suc n)
  show ?case
  proof (cases "float_of F (parts ! Suc n)")
    case None
    with Suc show ?thesis by (auto simp: le_Suc_eq)
  next
    case (Some a)
    then show ?thesis by auto
  qed
qed

lemma scan_amount_Some:
  "scan_amount F parts n = Some (k, a) \<longleftrightarrow>
     1 \<le> k \<and> k \<le> n \<and> float_of F (parts ! k) = Some a
     \<and> (\<forall>j. k < j \<and> j \<le> n \<longrightarrow> float_of F (parts ! j) = None)"
proof (induction n)
  case 0
  show ?case by auto
next
  case (Suc n)
  show ?case
  proof (cases "float_of F (parts ! Suc n)")
    case None
    have step: "scan_amount F parts (Suc n) = scan_amount F parts n" using None by simp
    have "k \<noteq> Suc n" if "float_of F (parts ! k) = Some a" using that None by auto
    moreover have "(\<forall>j. k < j \<and> j \<le> Suc n \<longrightarrow> float_of F (parts ! j) = None)
        \<longleftrightarrow> (\<forall>j. k < j \<and> j \<le> n \<longrightarrow> float_of F (parts ! j) = None)"
      using None by (auto simp: le_Suc_eq)
    ultimately show ?thesis unfolding step Suc.IH by (auto simp: le_Suc_eq)
  next
    case (Some b)
    then show ?thesis by (auto simp: le_Suc_eq)
  qed
qed

text \<open>The first part of the parser, with the loop read as a search.\<close>

lemma extract_name_amount_unfold:
  assumes "l = lower (strip line)"
    and "parts = split_ws (remove_all ''paid'' (remove_all '' paid'' l))"
  shows "extract_name_amount F line =
     (if startswith l ''@'' \<and> 2 \<le> length parts
      then (case scan_amount F parts (length parts - 1) of
              None \<Rightarrow> None
            | Some (k, a) \<Rightarrow> Some (drop 1 (join '' '' (take k parts)), a))
      else None)"
  unfolding extract_name_amount_def Let_def assms by (simp add: not_less)

lemma parse_payment_line_unfold:
  "parse_payment_line F line ms =
     (case extract_name_amount F line of
        None \<Rightarrow> (None, None)
      | Some (name, a) \<Rightarrow>
          (Some (case match_member ms name of Some m \<Rightarrow> m | None \<Rightarrow> name), Some a))"
  by (simp add: parse_payment_line_def split: option.splits)

text \<open>
  Claim C3. For every line and member list, \<^const>\<open>parse_payment_line\<close> returns
  \<open>(None, None)\<close> unless the trimmed, lower-cased line starts with \<open>@\<close> and, once the
  substrings \<open>" paid"\<close> and \<open>"paid"\<close> are removed, splits into at least two tokens of
  which one at index 1 or more is accepted by \<^verbatim>\<open>float\<close>. Otherwise the amount is the
  value of the rightmost such token, and the candidate name is the join with single
  spaces of the tokens before it, without its leading \<open>@\<close>; the name returned is the
  candidate as the member list resolves it.
\<close>

theorem parse_payment_line_extraction:
  "let l = lower (strip line);
       parts = split_ws (remove_all ''paid'' (remove_all '' paid'' l));
       accepted = (startswith l ''@'' \<and> 2 \<le> length parts
                   \<and> (\<exists>i. 1 \<le> i \<and> i < length parts \<and> float_of F (parts ! i) \<noteq> None))
   in (\<not> accepted \<longrightarrow> parse_payment_line F line ms = (None, None))
      \<and> (accepted \<longrightarrow>
           (\<exists>k a name.
              1 \<le> k \<and> k < length parts \<and> float_of F (parts ! k) = Some a
              \<and> (\<forall>j. k < j \<and> j < length parts \<longrightarrow> float_of F (parts ! j) = None)
              \<and> join '' '' (take k parts) = CHR ''@'' # name
              \<and> extract_name_amount F line = Some (name, a)
              \<and> parse_payment_line F line ms
                  = (Some (case match_member ms name of Some m \<Rightarrow> m | None \<Rightarrow> name), Some a)))"
proof -
  define l where "l = lower (strip line)"
  define parts where "parts = split_ws (remove_all ''paid'' (remove_all '' paid'' l))"
  define found where
    "found \<longleftrightarrow> (\<exists>i. 1 \<le> i \<and> i < length parts \<and> float_of F (parts ! i) \<noteq> None)"
  note ex = extract_name_amount_unfold [OF l_def parts_def, of F]
  have rejected: "parse_payment_line F line ms = (None, None)"
    if "\<not> (startswith l ''@'' \<and> 2 \<le> length parts \<and> found)"
  proof (cases "startswith l ''@'' \<and> 2 \<le> length parts")
    case False
    then show ?thesis by (auto simp: parse_payment_line_unfold ex)
  next
    case True
    with that have "\<not> found" by simp
    then have "\<forall>i. 1 \<le> i \<and> i \<le> length parts - 1 \<longrightarrow> float_of F (parts ! i) = None"
      using True by (auto simp: found_def)
    then have "scan_amount F parts (length parts - 1) = None"
      by (simp only: scan_amount_None)
    then show ?thesis using True by (simp add: parse_payment_line_unfold ex)
  qed
  have accepted: "\<exists>k a name.
        1 \<le> k \<and> k < length parts \<and> float_of F (parts ! k) = Some a
        \<and> (\<forall>j. k < j \<and> j < length parts \<longrightarrow> float_of F (parts ! j) = None)
        \<and> join '' '' (take k parts) = CHR ''@'' # name
        \<and> extract_name_amount F line = Some (name, a)
        \<and> parse_payment_line F line ms
            = (Some (case match_member ms name of Some m \<Rightarrow> m | None \<Rightarrow> name), Some a)"
    if at: "startswith l ''@''" and two: "2 \<le> length parts" and "found"
  proof -
    from \<open>found\<close> obtain i where "1 \<le> i" "i \<le> length parts - 1" "float_of F (parts ! i) \<noteq> None"
      by (auto simp: found_def)
    then have "scan_amount F parts (length parts - 1) \<noteq> None"
      by (auto simp: scan_amount_None)
    then obtain k a where scan: "scan_amount F parts (length parts - 1) = Some (k, a)"
      by auto
    then have k: "1 \<le> k" "k \<le> length parts - 1" "float_of F (parts ! k) = Some a"
      and rightmost: "\<forall>j. k < j \<and> j \<le> length parts - 1 \<longrightarrow> float_of F (parts ! j) = None"
      unfolding scan_amount_Some by blast+
    from at obtain cs where "l = CHR ''@'' # cs" by (auto simp: startswith_at)
    then have "parts = split_ws (CHR ''@'' # remove_all ''paid'' (remove_all '' paid'' cs))"
      by (simp only: parts_def remove_paid_at_head)
    then obtain x xs where "parts = (CHR ''@'' # x) # xs"
      using split_ws_at_head by metis
    with k(1) obtain name where name: "join '' '' (take k parts) = CHR ''@'' # name"
      using join_take_head by metis
    have "extract_name_amount F line = Some (name, a)"
      using at two scan name by (simp add: ex)
    moreover from this have "parse_payment_line F line ms
        = (Some (case match_member ms name of Some m \<Rightarrow> m | None \<Rightarrow> name), Some a)"
      by (simp add: parse_payment_line_unfold)
    moreover have "k < length parts" using k(2) two by arith
    moreover have "\<forall>j. k < j \<and> j < length parts \<longrightarrow> float_of F (parts ! j) = None"
      using rightmost by auto
    ultimately show ?thesis using k(1,3) name by blast
  qed
  show ?thesis
    unfolding Let_def l_def [symmetric] parts_def [symmetric] found_def [symmetric]
    using rejected accepted by blast
qed

text \<open>The theorem at \<open>"@Mary Ann 100"\<close>, at a line with two numbers and at a line with no
  \<open>@\<close>.\<close>

theorem parse_payment_line_extraction_witness:
  "parse_payment_line whole_ops ''@Mary Ann 100'' [''mary ann''] = (Some ''mary ann'', Some 100)
   \<and> parse_payment_line whole_ops ''@john 5 10 x'' [''john''] = (Some ''john 5'', Some 10)
   \<and> parse_payment_line whole_ops ''no at sign 10 paid'' [''john''] = (None, None)"
proof -
  have f: "float_of whole_ops ''100'' = Some 100" "float_of whole_ops ''ann'' = None"
    "float_of whole_ops ''5'' = Some 5" "float_of whole_ops ''10'' = Some 10"
    "float_of whole_ops ''x'' = None"
    by code_simp+
  have first: "parse_payment_line whole_ops ''@Mary Ann 100'' [''mary ann'']
      = (Some ''mary ann'', Some 100)"
  proof -
    define ps where "ps = [''@mary'', ''ann'', ''100'']"
    have l: "lower (strip ''@Mary Ann 100'') = ''@mary ann 100''" by code_simp
    have parts: "split_ws (remove_all ''paid'' (remove_all '' paid'' ''@mary ann 100'')) = ps"
      unfolding ps_def by code_simp
    have at: "startswith ''@mary ann 100'' ''@''" by code_simp
    have m: "match_member [''mary ann''] ''mary ann'' = Some ''mary ann''" by code_simp
    have two: "2 \<le> length ps" by (simp add: ps_def)
    have found: "\<exists>i. 1 \<le> i \<and> i < length ps \<and> float_of whole_ops (ps ! i) \<noteq> None"
      by (rule exI [of _ 2]) (simp add: f ps_def)
    have accepted: "startswith ''@mary ann 100'' ''@'' \<and> 2 \<le> length ps
        \<and> (\<exists>i. 1 \<le> i \<and> i < length ps \<and> float_of whole_ops (ps ! i) \<noteq> None)"
      using at two found by (intro conjI)
    note parse_payment_line_extraction [of "''@Mary Ann 100''" whole_ops "[''mary ann'']",
        unfolded Let_def l parts, THEN conjunct2, THEN mp, OF accepted]
    then obtain k a name where k: "1 \<le> k" "k < length ps"
      and fk: "float_of whole_ops (ps ! k) = Some a"
      and name: "join '' '' (take k ps) = CHR ''@'' # name"
      and res: "parse_payment_line whole_ops ''@Mary Ann 100'' [''mary ann'']
          = (Some (case match_member [''mary ann''] name of Some m \<Rightarrow> m | None \<Rightarrow> name), Some a)"
      by blast
    from k have "k = 1 \<or> k = 2" by (auto simp: ps_def)
    with fk have k2: "k = 2" by (auto simp: f ps_def)
    with fk have "a = 100" by (simp add: f ps_def)
    moreover from name k2 have "name = ''mary ann''" by (simp add: numeral_2_eq_2 ps_def)
    ultimately show ?thesis using res by (simp add: m)
  qed
  have second: "parse_payment_line whole_ops ''@john 5 10 x'' [''john''] = (Some ''john 5'', Some 10)"
  proof -
    define ps where "ps = [''@john'', ''5'', ''10'', ''x'']"
    have l: "lower (strip ''@john 5 10 x'') = ''@john 5 10 x''" by code_simp
    have parts: "split_ws (remove_all ''paid'' (remove_all '' paid'' ''@john 5 10 x'')) = ps"
      unfolding ps_def by code_simp
    have at: "startswith ''@john 5 10 x'' ''@''" by code_simp
    have m: "match_member [''john''] ''john 5'' = None" by code_simp
    have two: "2 \<le> length ps" by (simp add: ps_def)
    have found: "\<exists>i. 1 \<le> i \<and> i < length ps \<and> float_of whole_ops (ps ! i) \<noteq> None"
      by (rule exI [of _ 2]) (simp add: f ps_def)
    have accepted: "startswith ''@john 5 10 x'' ''@'' \<and> 2 \<le> length ps
        \<and> (\<exists>i. 1 \<le> i \<and> i < length ps \<and> float_of whole_ops (ps ! i) \<noteq> None)"
      using at two found by (intro conjI)
    note parse_payment_line_extraction [of "''@john 5 10 x''" whole_ops "[''john'']",
        unfolded Let_def l parts, THEN conjunct2, THEN mp, OF accepted]
    then obtain k a name where k: "1 \<le> k" "k < length ps"
      and fk: "float_of whole_ops (ps ! k) = Some a"
      and right: "\<forall>j. k < j \<and> j < length ps \<longrightarrow> float_of whole_ops (ps ! j) = None"
      and name: "join '' '' (take k ps) = CHR ''@'' # name"
      and res: "parse_payment_line whole_ops ''@john 5 10 x'' [''john'']
          = (Some (case match_member [''john''] name of Some m \<Rightarrow> m | None \<Rightarrow> name), Some a)"
      by blast
    from k have "k = 1 \<or> k = 2 \<or> k = 3" by (auto simp: ps_def)
    moreover have "k \<noteq> 3" using fk by (auto simp: f ps_def numeral_3_eq_3)
    moreover have "k \<noteq> 1" using right [rule_format, of 2] by (auto simp: f ps_def)
    ultimately have k2: "k = 2" by simp
    with fk have "a = 10" by (simp add: f ps_def)
    moreover from name k2 have "name = ''john 5''" by (simp add: numeral_2_eq_2 ps_def)
    ultimately show ?thesis using res by (simp add: m)
  qed
  have third: "parse_payment_line whole_ops ''no at sign 10 paid'' [''john''] = (None, None)"
  proof -
    have l: "lower (strip ''no at sign 10 paid'') = ''no at sign 10 paid''" by code_simp
    have at: "\<not> startswith ''no at sign 10 paid'' ''@''" by code_simp
    have rejected: "\<not> (startswith ''no at sign 10 paid'' ''@''
        \<and> 2 \<le> length (split_ws (remove_all ''paid'' (remove_all '' paid'' ''no at sign 10 paid'')))
        \<and> (\<exists>i. 1 \<le> i
              \<and> i < length (split_ws (remove_all ''paid'' (remove_all '' paid'' ''no at sign 10 paid'')))
              \<and> float_of whole_ops
                   (split_ws (remove_all ''paid'' (remove_all '' paid'' ''no at sign 10 paid'')) ! i)
                  \<noteq> None))"
      using at by blast
    show ?thesis
      by (rule parse_payment_line_extraction [of "''no at sign 10 paid''" whole_ops "[''john'']",
            unfolded Let_def l, THEN conjunct1, THEN mp, OF rejected])
  qed
  from first second third show ?thesis by simp
qed

text \<open>The candidate name is in lower case.\<close>

lemma extract_name_amount_lower:
  assumes "extract_name_amount F line = Some (name, a)"
  shows "lower name = name"
proof -
  define l where "l = lower (strip line)"
  define parts where "parts = split_ws (remove_all ''paid'' (remove_all '' paid'' l))"
  have fixed_l: "lower_char c = c" if "c \<in> set l" for c
    using that by (auto simp: l_def lower_def lower_char_idem)
  have fixed_parts: "lower_char c = c" if "t \<in> set parts" "c \<in> set t" for t c
  proof -
    from that have "c \<in> set (remove_all ''paid'' (remove_all '' paid'' l))"
      using set_split_ws unfolding parts_def by blast
    then have "c \<in> set l" using set_remove_all by blast
    then show ?thesis by (rule fixed_l)
  qed
  from assms obtain k where name: "name = drop 1 (join '' '' (take k parts))"
    unfolding extract_name_amount_unfold [OF l_def parts_def]
    by (auto split: if_splits option.splits)
  have "lower_char c = c" if "c \<in> set name" for c
  proof -
    from that have "c \<in> set (join '' '' (take k parts))"
      unfolding name by (rule in_set_dropD)
    then have "c \<in> set '' '' \<or> (\<exists>t \<in> set (take k parts). c \<in> set t)"
      using set_join by fastforce
    then show ?thesis
    proof
      assume "c \<in> set '' ''"
      then show ?thesis by (simp add: lower_char_def)
    next
      assume "\<exists>t \<in> set (take k parts). c \<in> set t"
      then obtain t where "t \<in> set parts" "c \<in> set t" by (auto dest: in_set_takeD)
      then show ?thesis by (rule fixed_parts)
    qed
  qed
  then show ?thesis by (simp add: lower_fixed_iff)
qed

text \<open>
  Claim C4. Whenever the parser extracts a candidate name and an amount: if a member of
  the list equals the candidate without regard to case, the first such member is returned
  as the list writes it, with the amount; otherwise the candidate, which is in lower case,
  is returned with the amount.
\<close>

theorem parse_payment_line_member_match:
  "extract_name_amount F line = Some (name, a) \<Longrightarrow>
     lower name = name
     \<and> ((\<exists>m \<in> set ms. lower m = lower name) \<longrightarrow>
          (\<exists>i < length ms. lower (ms ! i) = lower name
             \<and> (\<forall>j < i. lower (ms ! j) \<noteq> lower name)
             \<and> parse_payment_line F line ms = (Some (ms ! i), Some a)))
     \<and> ((\<forall>m \<in> set ms. lower m \<noteq> lower name) \<longrightarrow>
          parse_payment_line F line ms = (Some name, Some a))"
proof -
  assume ex: "extract_name_amount F line = Some (name, a)"
  have matched: "\<exists>i < length ms. lower (ms ! i) = lower name
       \<and> (\<forall>j < i. lower (ms ! j) \<noteq> lower name)
       \<and> parse_payment_line F line ms = (Some (ms ! i), Some a)"
    if "\<exists>m \<in> set ms. lower m = lower name"
  proof -
    from that have "match_member ms name \<noteq> None"
      by (auto simp: match_member_def find_None_iff)
    then obtain m where m: "match_member ms name = Some m" by auto
    then obtain i where "i < length ms" "lower (ms ! i) = lower name" "m = ms ! i"
      "\<forall>j < i. lower (ms ! j) \<noteq> lower name"
      unfolding match_member_def find_Some_iff by blast
    moreover have "parse_payment_line F line ms = (Some m, Some a)"
      using ex m by (simp add: parse_payment_line_def)
    ultimately show ?thesis by blast
  qed
  have unmatched: "parse_payment_line F line ms = (Some name, Some a)"
    if "\<forall>m \<in> set ms. lower m \<noteq> lower name"
  proof -
    from that have "match_member ms name = None"
      by (auto simp: match_member_def find_None_iff)
    then show ?thesis using ex by (simp add: parse_payment_line_def)
  qed
  from extract_name_amount_lower [OF ex] matched unmatched show ?thesis by blast
qed

text \<open>The theorem at a name that is not in the list, and at a name that the list writes
  with capitals.\<close>

theorem parse_payment_line_member_match_witness:
  "parse_payment_line whole_ops ''@unknownguy 20 paid'' [''john''] = (Some ''unknownguy'', Some 20)
   \<and> parse_payment_line whole_ops ''@mary ann 100'' [''John'', ''Mary Ann'']
       = (Some ''Mary Ann'', Some 100)"
proof -
  have ex1: "extract_name_amount whole_ops ''@unknownguy 20 paid'' = Some (''unknownguy'', 20)"
    by code_simp
  have no: "\<forall>m \<in> set [''john'']. lower m \<noteq> lower ''unknownguy''" by code_simp
  have first: "parse_payment_line whole_ops ''@unknownguy 20 paid'' [''john'']
      = (Some ''unknownguy'', Some 20)"
    using parse_payment_line_member_match [OF ex1, of "[''john'']"] no by blast
  have ex2: "extract_name_amount whole_ops ''@mary ann 100'' = Some (''mary ann'', 100)"
    by code_simp
  have l: "lower ''John'' \<noteq> lower ''mary ann''" "lower ''Mary Ann'' = lower ''mary ann''"
    by code_simp+
  have yes: "\<exists>m \<in> set [''John'', ''Mary Ann'']. lower m = lower ''mary ann''"
    using l by simp
  from parse_payment_line_member_match [OF ex2, of "[''John'', ''Mary Ann'']"] yes
  have "\<exists>i < length [''John'', ''Mary Ann''].
      lower ([''John'', ''Mary Ann''] ! i) = lower ''mary ann''
      \<and> (\<forall>j < i. lower ([''John'', ''Mary Ann''] ! j) \<noteq> lower ''mary ann'')
      \<and> parse_payment_line whole_ops ''@mary ann 100'' [''John'', ''Mary Ann'']
          = (Some ([''John'', ''Mary Ann''] ! i), Some 100)"
    by blast
  then obtain i where i: "i < length [''John'', ''Mary Ann'']"
      "lower ([''John'', ''Mary Ann''] ! i) = lower ''mary ann''"
    and res: "parse_payment_line whole_ops ''@mary ann 100'' [''John'', ''Mary Ann'']
        = (Some ([''John'', ''Mary Ann''] ! i), Some 100)"
    by blast
  from i(1) have "i = 0 \<or> i = 1" by auto
  with i(2) l have "i = 1" by auto
  with res have second: "parse_payment_line whole_ops ''@mary ann 100'' [''John'', ''Mary Ann'']
      = (Some ''Mary Ann'', Some 100)" by simp
  from first second show ?thesis by simp
qed

text \<open>
  Claim C10. For every line and member list the parser returns \<open>(None, None)\<close> or a
  pair with both the name and the amount, never one without the other. The name can be
  the empty string: the line \<open>"@ 50"\<close> yields the empty name with the amount 50, for
  every member list.
\<close>

theorem parse_payment_line_both_or_neither:
  "(parse_payment_line F line ms = (None, None)
      \<or> (\<exists>name a. parse_payment_line F line ms = (Some name, Some a)))
   \<and> parse_payment_line whole_ops ''@ 50'' ms = (Some [], Some 50)"
proof
  show "parse_payment_line F line ms = (None, None)
      \<or> (\<exists>name a. parse_payment_line F line ms = (Some name, Some a))"
    by (cases "extract_name_amount F line") (auto simp: parse_payment_line_unfold)
next
  have ex: "extract_name_amount whole_ops ''@ 50'' = Some ([], 50)" by code_simp
  have "m = []" if "match_member ms [] = Some m" for m
  proof -
    from that have "lower m = lower []" by (auto simp: match_member_def find_Some_iff)
    then show ?thesis by (simp add: lower_def)
  qed
  then show "parse_payment_line whole_ops ''@ 50'' ms = (Some [], Some 50)"
    using ex by (auto simp: parse_payment_line_unfold split: option.splits)
qed

subsection \<open>The roster\<close>

lemma normalize_name_lower: "lower (normalize_name n) = normalize_name n"
proof -
  have "lower_char c = c" if "c \<in> set (normalize_name n)" for c
  proof -
    from that have "c \<in> set (lower n)"
      using set_remove_all unfolding normalize_name_def by blast
    then show ?thesis by (auto simp: lower_def lower_char_idem)
  qed
  then show ?thesis by (simp add: lower_fixed_iff)
qed

lemma load_data_send [simp]: "load_data (send msg w) = load_data w"
  by (simp add: load_data_def send_def)

lemma load_data_save [simp]: "load_data (save_data d w) = d"
  by (simp add: load_data_def save_data_def)

lemma saves_send [simp]: "saves (send msg w) = saves w"
  by (simp add: send_def)

lemma saves_save [simp]: "saves (save_data d w) = saves w + 1"
  by (simp add: save_data_def)

lemma data_file_send [simp]: "data_file (send msg w) = data_file w"
  by (simp add: send_def)

text \<open>
  What \<^const>\<open>addmember\<close> does. It lowers the name and strips \<open>@\<close> from it. If the
  normalized name is in the roster as the roster writes it, the command answers that the
  member is already in the list and changes nothing: nothing is appended and nothing is
  saved. Otherwise the name is appended at the end of the roster, which is saved once.
  On a roster whose names are all in lower case, the normalized name is in the roster
  exactly when a member equals it without regard to case.
\<close>

theorem addmember_duplicate_or_append:
  "let d = load_data w; name = normalize_name name0; w' = addmember name0 w in
     (name \<in> set (members d) \<longrightarrow>
        w' = send (already_in_list name) w \<and> data_file w' = data_file w
        \<and> saves w' = saves w \<and> load_data w' = d)
     \<and> (name \<notin> set (members d) \<longrightarrow>
          load_data w' = d\<lparr>members := members d @ [name]\<rparr> \<and> saves w' = saves w + 1)
     \<and> ((\<forall>m \<in> set (members d). lower m = m) \<longrightarrow>
          ((\<exists>m \<in> set (members d). lower m = lower name) \<longleftrightarrow> name \<in> set (members d)))"
proof -
  have "(\<exists>m \<in> set ms. lower m = lower (normalize_name name0)) \<longleftrightarrow> normalize_name name0 \<in> set ms"
    if "\<forall>m \<in> set ms. lower m = m" for ms
    using that by (auto simp: normalize_name_lower)
  then show ?thesis
    by (simp add: addmember_def Let_def)
qed

text \<open>The theorem on the roster \<open>john, mary\<close>: \<open>@JoHn\<close> is refused and \<open>Zed\<close> is
  appended as \<open>zed\<close>.\<close>

theorem addmember_duplicate_or_append_witness:
  "members (load_data (addmember ''@JoHn''
      \<lparr>data_file = Some \<lparr>payments = [], members = [''john'', ''mary''], report_channel = None\<rparr>,
       saves = 0, sent = []\<rparr> :: int world)) = [''john'', ''mary'']
   \<and> saves (addmember ''@JoHn''
      \<lparr>data_file = Some \<lparr>payments = [], members = [''john'', ''mary''], report_channel = None\<rparr>,
       saves = 0, sent = []\<rparr> :: int world) = 0
   \<and> members (load_data (addmember ''Zed''
      \<lparr>data_file = Some \<lparr>payments = [], members = [''john'', ''mary''], report_channel = None\<rparr>,
       saves = 0, sent = []\<rparr> :: int world)) = [''john'', ''mary'', ''zed'']
   \<and> saves (addmember ''Zed''
      \<lparr>data_file = Some \<lparr>payments = [], members = [''john'', ''mary''], report_channel = None\<rparr>,
       saves = 0, sent = []\<rparr> :: int world) = 1"
proof -
  define w :: "int world" where
    "w = \<lparr>data_file = Some \<lparr>payments = [], members = [''john'', ''mary''], report_channel = None\<rparr>,
          saves = 0, sent = []\<rparr>"
  have d: "load_data w = \<lparr>payments = [], members = [''john'', ''mary''], report_channel = None\<rparr>"
    by (simp add: w_def load_data_def)
  have n: "normalize_name ''@JoHn'' = ''john''" "normalize_name ''Zed'' = ''zed''"
    by code_simp+
  have s: "saves w = 0" by (simp add: w_def)
  from addmember_duplicate_or_append [of w "''@JoHn''"]
  have "load_data (addmember ''@JoHn'' w) = load_data w \<and> saves (addmember ''@JoHn'' w) = saves w"
    by (simp add: Let_def d n)
  moreover from addmember_duplicate_or_append [of w "''Zed''"]
  have "load_data (addmember ''Zed'' w) = (load_data w)\<lparr>members := members (load_data w) @ [''zed'']\<rparr>
      \<and> saves (addmember ''Zed'' w) = saves w + 1"
    by (simp add: Let_def d n)
  ultimately show ?thesis unfolding w_def [symmetric] by (simp add: d s)
qed

text \<open>The names in the roster stay in lower case: \<^const>\<open>lower_roster\<close> holds while
  there is no data file, and every command keeps it.\<close>

lemma lower_roster_initial: "lower_roster \<lparr>data_file = None, saves = n, sent = out\<rparr>"
  by (simp add: lower_roster_def load_data_def)

lemma lower_roster_setup_cmd: "lower_roster (setup_cmd i m1 m2 m3 m4 w)"
  by (simp add: lower_roster_def setup_cmd_def Let_def normalize_name_lower)

lemma lower_roster_addmember: "lower_roster w \<Longrightarrow> lower_roster (addmember n w)"
  by (simp add: lower_roster_def addmember_def Let_def normalize_name_lower)

lemma lower_roster_removemember: "lower_roster w \<Longrightarrow> lower_roster (removemember n w)"
  by (auto simp: lower_roster_def removemember_def Let_def list_all_iff dest: notin_set_remove1)

lemma lower_roster_clear: "lower_roster w \<Longrightarrow> lower_roster (clear w)"
  by (simp add: lower_roster_def clear_def)

text \<open>The message handler leaves the roster as it is, so it keeps the invariant too.\<close>

lemma line_step_members:
  "members (fst (line_step F now who ms l acc)) = members (fst acc)"
  by (cases acc) (auto simp: line_step_def Let_def split: option.splits prod.splits)

lemma fold_line_step_members:
  "members (fst (fold (line_step F now who ms) lines acc)) = members (fst acc)"
  by (induction lines arbitrary: acc) (simp_all add: line_step_members)

lemma on_message_members:
  "members (load_data (on_message F now bot_user msg w)) = members (load_data w)"
proof -
  define r where "r = process_lines F now (author msg) (members (load_data w))
      (split_lines (strip (content msg))) (load_data w)"
  have "members (fst r) = members (load_data w)"
    unfolding r_def process_lines_def by (simp add: fold_line_step_members)
  then show ?thesis
    by (cases r) (auto simp: on_message_def Let_def r_def [symmetric])
qed

lemma lower_roster_on_message:
  "lower_roster w \<Longrightarrow> lower_roster (on_message F now bot_user msg w)"
  by (simp add: lower_roster_def on_message_members)

text \<open>Adding a name and then the same name in any case: the second call is refused,
  whatever the roster was.\<close>

lemma addmember_twice:
  assumes "lower n2 = lower n1"
  shows "addmember n2 (addmember n1 w)
      = send (already_in_list (normalize_name n1)) (addmember n1 w)"
proof -
  have same: "normalize_name n2 = normalize_name n1"
    using assms by (simp add: normalize_name_def)
  have "normalize_name n1 \<in> set (members (load_data (addmember n1 w)))"
    by (simp add: addmember_def Let_def)
  then show ?thesis
    by (simp add: addmember_def [of n2] Let_def same)
qed


subsection \<open>The report is a function of the payments, the roster and the date\<close>

lemma day_step_payments:
  "payments d1 = payments d2 \<Longrightarrow> day_step F d1 c st = day_step F d2 c st"
  by (simp add: day_step_def)

lemma week_loop_payments:
  "payments d1 = payments d2 \<Longrightarrow> week_loop F d1 c s st = week_loop F d2 c s st"
proof (induction F d1 c s st rule: week_loop.induct)
  case (1 F d1 c s st)
  show ?case
  proof (cases "c \<le> s")
    case True
    with 1 show ?thesis
      by (simp add: week_loop.simps [of F d1 c] week_loop.simps [of F d2 c]
          day_step_payments [of d1 d2])
  next
    case False
    then show ?thesis
      by (simp add: week_loop.simps [of F d1 c] week_loop.simps [of F d2 c])
  qed
qed

lemma get_week_range_date:
  "ordinal now1 = ordinal now2 \<Longrightarrow> get_week_range now1 = get_week_range now2"
  by (simp add: get_week_range_def minus_days_def plus_days_def)

text \<open>
  Claim C9. The report is determined by the ledger and the clock reading: two calls on
  ledgers with the same payments and the same roster, at readings of the same date,
  return the same text, byte for byte. Neither the report channel nor the time of day
  matters.
\<close>

theorem generate_weekly_report_deterministic:
  "payments d1 = payments d2 \<Longrightarrow> members d1 = members d2 \<Longrightarrow> ordinal now1 = ordinal now2 \<Longrightarrow>
     generate_weekly_report F d1 now1 = generate_weekly_report F d2 now2"
  by (simp add: generate_weekly_report_def run_week_def
      get_week_range_date [of now1 now2] week_loop_payments [of d1 d2])

text \<open>The theorem on two ledgers that differ in the report channel, at two times of one
  Sunday.\<close>

theorem generate_weekly_report_deterministic_witness:
  "generate_weekly_report whole_ops
      \<lparr>payments = [\<lparr>username = ''john'', amount = 50, date = ''2024-03-06'', time = ''10:00:00'',
                    day = ''Wednesday'', recorded_by = ''al''\<rparr>],
       members = [''john'', ''mary''], report_channel = None\<rparr>
      \<lparr>ordinal = 738955, hour = 9, minute = 0, second = 0\<rparr>
   = generate_weekly_report whole_ops
      \<lparr>payments = [\<lparr>username = ''john'', amount = 50, date = ''2024-03-06'', time = ''10:00:00'',
                    day = ''Wednesday'', recorded_by = ''al''\<rparr>],
       members = [''john'', ''mary''], report_channel = Some 7\<rparr>
      \<lparr>ordinal = 738955, hour = 17, minute = 30, second = 0\<rparr>"
  by (rule generate_weekly_report_deterministic) simp_all

subsection \<open>The loops of the report\<close>

lemma week_loop_fold: "week_loop F d c s st = fold (day_step F d) [c..s] st"
proof (induction F d c s st rule: week_loop.induct)
  case (1 F d c s st)
  show ?case
  proof (cases "c \<le> s")
    case True
    then have "[c..s] = c # [c + 1..s]" by (rule upto_rec1)
    with 1 True show ?thesis by (simp add: week_loop.simps [of F d c])
  next
    case False
    then show ?thesis by (simp add: week_loop.simps [of F d c])
  qed
qed

lemma upto_five: "[t..t + 4] = [t, t + 1, t + 2, t + 3, t + 4]"
proof -
  have step: "[t + i..t + 4] = (t + i) # [t + (i + 1)..t + 4]" if "i \<le> 4" for i
    using that upto_rec1 [of "t + i" "t + 4"] by (simp add: add.assoc)
  have "[t..t + 4] = t # [t + 1..t + 4]" using step [of 0] by simp
  also have "[t + 1..t + 4] = (t + 1) # [t + 2..t + 4]" using step [of 1] by simp
  also have "[t + 2..t + 4] = (t + 2) # [t + 3..t + 4]" using step [of 2] by simp
  also have "[t + 3..t + 4] = (t + 3) # [t + 4..t + 4]" using step [of 3] by simp
  also have "[t + 4..t + 4] = [t + 4]" by simp
  finally show ?thesis .
qed

lemma get_week_range_span: "snd (get_week_range now) = fst (get_week_range now) + 4"
  by (simp add: get_week_range_def Let_def minus_days_def plus_days_def)

lemma week_dates_five:
  "week_dates now = (let t = fst (get_week_range now) in [t, t + 1, t + 2, t + 3, t + 4])"
  using get_week_range_span [of now] upto_five [of "fst (get_week_range now)"]
  by (simp add: week_dates_def split_def Let_def)

lemma map_entry_distinct:
  "distinct (map fst al) \<Longrightarrow>
     AList.map_entry k f al = map (\<lambda>e. (fst e, if fst e = k then f (snd e) else snd e)) al"
proof (induction al)
  case Nil
  show ?case by simp
next
  case (Cons e al)
  show ?case
  proof (cases "fst e = k")
    case True
    with Cons.prems have "\<forall>x \<in> set al. fst x \<noteq> k" by (auto simp: image_iff)
    then have "map (\<lambda>e. (fst e, if fst e = k then f (snd e) else snd e)) al = al"
      by (intro map_idI) auto
    with True show ?thesis by simp
  next
    case False
    with Cons show ?thesis by simp
  qed
qed

lemma map_entry_absent:
  "k \<notin> fst ` set al \<Longrightarrow> map (\<lambda>e. (fst e, if fst e = k then f (snd e) else snd e)) al = al"
  by (intro map_idI) auto

text \<open>The two dictionaries of the report have the same keys, each once.\<close>

lemma payment_step_effect:
  assumes "distinct (map fst (member_totals st))"
    and "map fst (member_days st) = map fst (member_totals st)"
  shows "payment_step F dn p (st, dt) =
     (st\<lparr>report := report st @ listing_line F p,
         week_total := add_amount F (week_total st) (amount p),
         member_totals :=
           map (\<lambda>e. (fst e, if fst e = username p then add_amount F (snd e) (amount p) else snd e))
             (member_totals st),
         member_days :=
           map (\<lambda>e. (fst e, if fst e = username p then snd e @ [take 3 dn] else snd e))
             (member_days st)\<rparr>,
      add_amount F dt (amount p))"
proof (cases "map_of (member_totals st) (username p)")
  case None
  then have absent: "username p \<notin> fst ` set (member_totals st)"
    by (simp add: map_of_eq_None_iff)
  then have "username p \<notin> fst ` set (member_days st)"
    using assms(2) by (metis list.set_map)
  then have md: "map (\<lambda>e. (fst e, if fst e = username p then snd e @ [take 3 dn] else snd e))
      (member_days st) = member_days st"
    using map_entry_absent [of "username p" "member_days st" "\<lambda>ds. ds @ [take 3 dn]"] by simp
  have mt: "map (\<lambda>e. (fst e, if fst e = username p then add_amount F (snd e) (amount p) else snd e))
      (member_totals st) = member_totals st"
    using absent
      map_entry_absent [of "username p" "member_totals st" "\<lambda>t. add_amount F t (amount p)"]
    by simp
  show ?thesis
    unfolding mt md using None by (simp add: payment_step_def Let_def listing_line_def)
next
  case (Some t)
  from assms have "distinct (map fst (member_days st))" by simp
  with assms(1) Some show ?thesis
    by (simp add: payment_step_def Let_def listing_line_def map_entry_distinct)
qed

lemma fold_payment_step:
  assumes "distinct (map fst (member_totals st))"
    and "map fst (member_days st) = map fst (member_totals st)"
  shows "fold (payment_step F dn) ps (st, dt) =
     (st\<lparr>report := report st @ concat (map (listing_line F) ps),
         week_total := foldl (add_amount F) (week_total st) (map amount ps),
         member_totals :=
           map (\<lambda>e. (fst e, foldl (add_amount F) (snd e)
                               (map amount (filter (\<lambda>p. username p = fst e) ps))))
             (member_totals st),
         member_days :=
           map (\<lambda>e. (fst e, snd e @ map (\<lambda>p. take 3 dn) (filter (\<lambda>p. username p = fst e) ps)))
             (member_days st)\<rparr>,
      foldl (add_amount F) dt (map amount ps))"
  using assms
proof (induction ps arbitrary: st dt)
  case Nil
  show ?case by simp
next
  case (Cons p ps)
  define st' where "st' = fst (payment_step F dn p (st, dt))"
  define dt' where "dt' = snd (payment_step F dn p (st, dt))"
  note eff = payment_step_effect [OF Cons.prems, of F dn p dt]
  have st': "st' = st\<lparr>report := report st @ listing_line F p,
         week_total := add_amount F (week_total st) (amount p),
         member_totals :=
           map (\<lambda>e. (fst e, if fst e = username p then add_amount F (snd e) (amount p) else snd e))
             (member_totals st),
         member_days :=
           map (\<lambda>e. (fst e, if fst e = username p then snd e @ [take 3 dn] else snd e))
             (member_days st)\<rparr>"
    and dt': "dt' = add_amount F dt (amount p)"
    by (simp_all add: st'_def dt'_def eff)
  have keys: "distinct (map fst (member_totals st'))"
    "map fst (member_days st') = map fst (member_totals st')"
    using Cons.prems by (simp_all add: st' o_def)
  have "fold (payment_step F dn) (p # ps) (st, dt) = fold (payment_step F dn) ps (st', dt')"
    by (simp add: st'_def dt'_def)
  also note Cons.IH [OF keys, of dt']
  finally show ?case
    by (simp add: st' dt' o_def) 
qed

lemma day_step_effect:
  assumes "distinct (map fst (member_totals st))"
    and "map fst (member_days st) = map fst (member_totals st)"
  shows "day_step F d c st =
     st\<lparr>report := report st @ day_block F d c,
        week_total := foldl (add_amount F) (week_total st) (map amount (day_payments d c)),
        member_totals :=
          map (\<lambda>e. (fst e, foldl (add_amount F) (snd e)
                              (map amount (filter (\<lambda>p. username p = fst e) (day_payments d c)))))
            (member_totals st),
        member_days :=
          map (\<lambda>e. (fst e, snd e @ map (\<lambda>p. take 3 (day_name_of c))
                                      (filter (\<lambda>p. username p = fst e) (day_payments d c))))
            (member_days st)\<rparr>"
proof (cases "day_payments d c = []")
  case True
  then show ?thesis
    by (simp add: day_step_def Let_def day_block_def day_heading_def day_payments_def)
next
  case False
  define st1 where "st1 = st\<lparr>report := report st @ day_heading c\<rparr>"
  have keys: "distinct (map fst (member_totals st1))"
    "map fst (member_days st1) = map fst (member_totals st1)"
    using assms by (simp_all add: st1_def)
  have "day_step F d c st =
      (case fold (payment_step F (day_name_of c)) (day_payments d c) (st1, Int_0) of
         (st2, daily_total) \<Rightarrow>
           st2\<lparr>report := report st2 @ ''   Daily Total: $'' @ fmt_total F daily_total @ ''\<newline>''\<rparr>)"
    using False
    by (simp add: day_step_def Let_def day_payments_def [symmetric] st1_def day_heading_def)
  also note fold_payment_step [OF keys]
  finally show ?thesis
    using False by (simp add: st1_def day_block_def sum_amounts_def)
qed

lemma entries_Cons: "entries d (c # cs) = map (Pair c) (day_payments d c) @ entries d cs"
  by (simp add: entries_def)

lemma entries_of_append: "entries_of m (xs @ ys) = entries_of m xs @ entries_of m ys"
  by (simp add: entries_of_def)

lemma entries_of_Pair:
  "entries_of m (map (Pair c) ps) = map (Pair c) (filter (\<lambda>p. username p = m) ps)"
  by (simp add: entries_of_def filter_map o_def)

lemma fold_day_step:
  assumes "distinct (map fst (member_totals st))"
    and "map fst (member_days st) = map fst (member_totals st)"
  shows "fold (day_step F d) cs st =
     st\<lparr>report := report st @ concat (map (day_block F d) cs),
        week_total := foldl (add_amount F) (week_total st) (map (\<lambda>e. amount (snd e)) (entries d cs)),
        member_totals :=
          map (\<lambda>e. (fst e, foldl (add_amount F) (snd e)
                              (map (\<lambda>x. amount (snd x)) (entries_of (fst e) (entries d cs)))))
            (member_totals st),
        member_days :=
          map (\<lambda>e. (fst e, snd e @ map (\<lambda>x. take 3 (day_name_of (fst x)))
                                      (entries_of (fst e) (entries d cs))))
            (member_days st)\<rparr>"
  using assms
proof (induction cs arbitrary: st)
  case Nil
  show ?case by (simp add: entries_def entries_of_def)
next
  case (Cons c cs)
  define st' where "st' = day_step F d c st"
  note eff = day_step_effect [OF Cons.prems, of F d c]
  have keys: "distinct (map fst (member_totals st'))"
    "map fst (member_days st') = map fst (member_totals st')"
    using Cons.prems by (simp_all add: st'_def eff o_def)
  have "fold (day_step F d) (c # cs) st = fold (day_step F d) cs st'"
    by (simp add: st'_def)
  also note Cons.IH [OF keys]
  finally show ?case
    by (simp add: st'_def eff entries_Cons entries_of_append entries_of_Pair o_def)
qed

text \<open>A dictionary built from the roster has the members as keys, each once, in the
  order of their first occurrences.\<close>

lemma update_new_key: "k \<notin> fst ` set al \<Longrightarrow> AList.update k v al = al @ [(k, v)]"
  by (induction al) auto

lemma dict_from_keys_eq:
  "dict_from_keys ms v = map (\<lambda>m. (m, v)) (first_occurrences ms)"
proof (induction ms rule: rev_induct)
  case Nil
  show ?case by (simp add: dict_from_keys_def first_occurrences_def)
next
  case (snoc x xs)
  have step: "dict_from_keys (xs @ [x]) v = AList.update x v (dict_from_keys xs v)"
    by (simp add: dict_from_keys_def)
  have set_first: "set (first_occurrences xs) = set xs"
    by (simp add: first_occurrences_def)
  show ?case
  proof (cases "x \<in> set xs")
    case True
    then have "map_of (map (\<lambda>m. (m, v)) (first_occurrences xs)) x = Some v"
      using set_first by (simp add: map_of_map_restrict)
    then have "AList.update x v (map (\<lambda>m. (m, v)) (first_occurrences xs))
        = map (\<lambda>m. (m, v)) (first_occurrences xs)"
      by (rule AList.update_triv)
    with True show ?thesis by (simp add: step snoc first_occurrences_def)
  next
    case False
    then have "x \<notin> fst ` set (map (\<lambda>m. (m, v)) (first_occurrences xs))"
      using set_first by (auto simp: image_iff)
    then have "AList.update x v (map (\<lambda>m. (m, v)) (first_occurrences xs))
        = map (\<lambda>m. (m, v)) (first_occurrences xs) @ [(x, v)]"
      by (rule update_new_key)
    with False show ?thesis by (simp add: step snoc first_occurrences_def)
  qed
qed

lemma first_occurrences_set [simp]: "set (first_occurrences ms) = set ms"
  by (simp add: first_occurrences_def)

lemma first_occurrences_distinct [simp]: "distinct (first_occurrences ms)"
  by (simp add: first_occurrences_def)

lemma first_occurrences_id: "distinct ms \<Longrightarrow> first_occurrences ms = ms"
  by (simp add: first_occurrences_def distinct_remdups_id)

text \<open>The state at the end of the loop over the week, in closed form.\<close>

lemma run_week_eq:
  "run_week F d now =
     \<lparr>report = report_header (fst (get_week_range now)) (snd (get_week_range now))
                @ concat (map (day_block F d) (week_dates now)),
      week_total = sum_amounts F (map (\<lambda>e. amount (snd e)) (week_entries d now)),
      member_totals =
        map (\<lambda>m. (m, sum_amounts F (map (\<lambda>e. amount (snd e)) (entries_of m (week_entries d now)))))
          (first_occurrences (members d)),
      member_days =
        map (\<lambda>m. (m, map (\<lambda>e. take 3 (day_name_of (fst e))) (entries_of m (week_entries d now))))
          (first_occurrences (members d))\<rparr>"
proof -
  define st0 :: "'a report_state" where
    "st0 = \<lparr>report = report_header (fst (get_week_range now)) (snd (get_week_range now)),
            week_total = Int_0,
            member_totals = dict_from_keys (members d) Int_0,
            member_days = dict_from_keys (members d) []\<rparr>"
  have keys: "distinct (map fst (member_totals st0))"
    "map fst (member_days st0) = map fst (member_totals st0)"
    by (simp_all add: st0_def dict_from_keys_eq o_def)
  have "run_week F d now = fold (day_step F d) (week_dates now) st0"
    by (simp add: run_week_def week_dates_def split_def week_loop_fold st0_def)
  also note fold_day_step [OF keys]
  finally show ?thesis
    by (simp add: st0_def dict_from_keys_eq o_def week_entries_def sum_amounts_def)
qed

subsection \<open>The report of a week\<close>

lemma generate_weekly_report_parts:
  "generate_weekly_report F d now =
     report (run_week F d now) @ summary_header @ member_summary F (run_week F d now)
     @ report_footer F (week_total (run_week F d now))"
  by (simp add: generate_weekly_report_def Let_def)

lemma in_entries_iff:
  "(c, p) \<in> set (entries d cs) \<longleftrightarrow>
     c \<in> set cs \<and> p \<in> set (payments d) \<and> date p = strftime_Ymd c"
  by (auto simp: entries_def day_payments_def)

lemma entries_of_entries:
  "entries_of m (entries d cs)
     = entries (d\<lparr>payments := filter (\<lambda>p. username p = m) (payments d)\<rparr>) cs"
proof (induction cs)
  case Nil
  show ?case by (simp add: entries_def entries_of_def)
next
  case (Cons c cs)
  have "filter (\<lambda>p. username p = m) (day_payments d c)
      = day_payments (d\<lparr>payments := filter (\<lambda>p. username p = m) (payments d)\<rparr>) c"
    by (simp add: day_payments_def conj_commute)
  with Cons show ?case
    by (simp add: entries_Cons entries_of_append entries_of_Pair)
qed

lemma days_of_map:
  "m \<in> set ks \<Longrightarrow> days_of (map (\<lambda>k. (k, f k)) ks) m = f m"
  by (simp add: days_of_def map_of_map_restrict)

text \<open>The line of the member summary for a member of the roster.\<close>

lemma member_summary_eq:
  "member_summary F (run_week F d now) =
     concat (map (\<lambda>m.
        summary_line F
          (map (\<lambda>k. (k, map (\<lambda>e. take 3 (day_name_of (fst e))) (entries_of k (week_entries d now))))
             (first_occurrences (members d)))
          (m, sum_amounts F (map (\<lambda>e. amount (snd e)) (entries_of m (week_entries d now)))))
        (first_occurrences (members d)))"
  by (simp add: member_summary_def run_week_eq o_def)

lemma idle_summary_line:
  assumes "m \<in> set ks" and "f m = []"
  shows "summary_line F (map (\<lambda>k. (k, f k)) ks) (m, sum_amounts F [])
      = CROSS_MARK @ '' @'' @ m @ '': $0.00 (Days: None)\<newline>''"
  using assms
  by (simp add: summary_line_def Let_def days_of_map sum_amounts_def is_positive_def fmt_total_def)

text \<open>
  Claim C1, as the code has it. On a ledger with no payments, for every roster and clock
  reading, the report is the header, then one block "No payments recorded" for each of
  the five dates from the computed Tuesday to the computed Saturday, then one line with
  the cross mark, 0.00 and "None" for every member of the roster (once each, in the
  order of the roster), then the week total 0.00. For every ledger, the daily breakdown
  is the sequence of the blocks of the dates from the Tuesday to the Saturday, both
  included.
\<close>

theorem empty_ledger_report:
  "(payments d = [] \<longrightarrow>
      generate_weekly_report F d now =
        (let t = fst (get_week_range now) in
           report_header t (t + 4)
           @ concat (map (\<lambda>c. day_heading c @ ''   No payments recorded\<newline>'')
                       [t, t + 1, t + 2, t + 3, t + 4])
           @ summary_header
           @ concat (map (\<lambda>m. CROSS_MARK @ '' @'' @ m @ '': $0.00 (Days: None)\<newline>'')
                       (first_occurrences (members d)))
           @ ''\<newline>'' @ replicate 50 CHR ''='' @ ''\<newline>''
           @ MONEY_BAG @ '' WEEKLY TOTAL: $0.00\<newline>''
           @ replicate 50 CHR ''='' @ ''\<newline>'' @ ''```''))
   \<and> set (first_occurrences (members d)) = set (members d)
   \<and> report (run_week F d now) =
        (case get_week_range now of (tuesday, saturday) \<Rightarrow>
           report_header tuesday saturday @ concat (map (day_block F d) [tuesday..saturday]))"
proof (intro conjI impI)
  assume empty: "payments d = []"
  have no_entries: "entries d cs = []" for cs
    using empty by (simp add: entries_def day_payments_def)
  have blocks: "day_block F d c = day_heading c @ ''   No payments recorded\<newline>''" for c
    using empty by (simp add: day_block_def day_payments_def)
  have lines: "summary_line F
      (map (\<lambda>k. (k, map (\<lambda>e. take 3 (day_name_of (fst e))) (entries_of k (week_entries d now))))
         (first_occurrences (members d)))
      (m, sum_amounts F (map (\<lambda>e. amount (snd e)) (entries_of m (week_entries d now))))
      = CROSS_MARK @ '' @'' @ m @ '': $0.00 (Days: None)\<newline>''"
    if "m \<in> set (first_occurrences (members d))" for m
    using idle_summary_line [OF that,
        of "\<lambda>k. map (\<lambda>e. take 3 (day_name_of (fst e))) (entries_of k (week_entries d now))" F]
    by (simp add: week_entries_def no_entries entries_of_def)
  have summary: "member_summary F (run_week F d now)
      = concat (map (\<lambda>m. CROSS_MARK @ '' @'' @ m @ '': $0.00 (Days: None)\<newline>'')
          (first_occurrences (members d)))"
    unfolding member_summary_eq using lines by (auto intro!: arg_cong [where f = concat])
  have total: "week_total (run_week F d now) = Int_0"
    by (simp add: run_week_eq week_entries_def no_entries sum_amounts_def)
  have body: "report (run_week F d now) =
      (let t = fst (get_week_range now) in
         report_header t (t + 4)
         @ concat (map (\<lambda>c. day_heading c @ ''   No payments recorded\<newline>'')
                     [t, t + 1, t + 2, t + 3, t + 4]))"
    by (simp add: run_week_eq week_dates_five get_week_range_span Let_def blocks)
  show "generate_weekly_report F d now =
        (let t = fst (get_week_range now) in
           report_header t (t + 4)
           @ concat (map (\<lambda>c. day_heading c @ ''   No payments recorded\<newline>'')
                       [t, t + 1, t + 2, t + 3, t + 4])
           @ summary_header
           @ concat (map (\<lambda>m. CROSS_MARK @ '' @'' @ m @ '': $0.00 (Days: None)\<newline>'')
                       (first_occurrences (members d)))
           @ ''\<newline>'' @ replicate 50 CHR ''='' @ ''\<newline>''
           @ MONEY_BAG @ '' WEEKLY TOTAL: $0.00\<newline>''
           @ replicate 50 CHR ''='' @ ''\<newline>'' @ ''```'')"
    unfolding generate_weekly_report_parts summary total body
    by (simp add: Let_def report_footer_def fmt_total_def)
next
  show "set (first_occurrences (members d)) = set (members d)" by simp
next
  show "report (run_week F d now) =
        (case get_week_range now of (tuesday, saturday) \<Rightarrow>
           report_header tuesday saturday @ concat (map (day_block F d) [tuesday..saturday]))"
    by (simp add: run_week_eq week_dates_def split_def)
qed

text \<open>The theorem on the roster \<open>john, mary, john\<close> on Sunday 10 March 2024: the five
  dates are 5 to 9 March, and \<open>john\<close> has one line.\<close>

theorem empty_ledger_report_witness:
  "generate_weekly_report whole_ops
      \<lparr>payments = [], members = [''john'', ''mary'', ''john''], report_channel = None\<rparr>
      \<lparr>ordinal = 738955, hour = 9, minute = 0, second = 0\<rparr>
   = report_header 738950 738954
     @ concat (map (\<lambda>c. day_heading c @ ''   No payments recorded\<newline>'')
                 [738950, 738951, 738952, 738953, 738954])
     @ summary_header
     @ concat (map (\<lambda>m. CROSS_MARK @ '' @'' @ m @ '': $0.00 (Days: None)\<newline>'')
                 [''john'', ''mary''])
     @ ''\<newline>'' @ replicate 50 CHR ''='' @ ''\<newline>''
     @ MONEY_BAG @ '' WEEKLY TOTAL: $0.00\<newline>''
     @ replicate 50 CHR ''='' @ ''\<newline>'' @ ''```''"
proof -
  have range: "get_week_range \<lparr>ordinal = 738955, hour = 9, minute = 0, second = 0\<rparr>
      = (738950, 738954)"
    by (simp add: get_week_range_def weekday_def minus_days_def plus_days_def)
  have roster: "first_occurrences [''john'', ''mary'', ''john''] = [''john'', ''mary'']"
    by (simp add: first_occurrences_def)
  from empty_ledger_report [of
      "\<lparr>payments = [], members = [''john'', ''mary'', ''john''], report_channel = None\<rparr>"
      whole_ops "\<lparr>ordinal = 738955, hour = 9, minute = 0, second = 0\<rparr>"]
  show ?thesis by (simp add: range roster Let_def)
qed

text \<open>The claim speaks of six days. The report of an empty ledger on Sunday 10 March 2024
  holds "No payments recorded" five times, not six.\<close>

theorem empty_ledger_report_six_days_counterexample:
  "count_occurrences ''No payments recorded''
      (generate_weekly_report whole_ops
         \<lparr>payments = [], members = [''john'', ''mary''], report_channel = None\<rparr>
         \<lparr>ordinal = 738955, hour = 9, minute = 0, second = 0\<rparr>) = 5
   \<and> count_occurrences ''No payments recorded''
      (generate_weekly_report whole_ops
         \<lparr>payments = [], members = [''john'', ''mary''], report_channel = None\<rparr>
         \<lparr>ordinal = 738955, hour = 9, minute = 0, second = 0\<rparr>) \<noteq> 6"
proof -
  have "count_occurrences ''No payments recorded''
      (generate_weekly_report whole_ops
         \<lparr>payments = [], members = [''john'', ''mary''], report_channel = None\<rparr>
         \<lparr>ordinal = 738955, hour = 9, minute = 0, second = 0\<rparr>) = 5"
    by code_simp
  then show ?thesis by simp
qed

text \<open>
  Claim C6. A payment of the ledger whose date is one of the dates of the week and whose
  member is not in the roster is listed in the block of its date, and its amount is one
  of the amounts that the daily total of that date and the week total add up; taking the
  payment out of the ledger changes no total and no list of days of the member summary.
  A member of the roster with no payment on a date of the week has a line in the member
  summary with the cross mark, the total 0.00 and the days "None", whenever the member
  joined the roster. The report is the daily breakdown, the member summary and the week
  total, in this order.
\<close>

theorem report_non_roster_payment_and_idle_member:
  "generate_weekly_report F d now =
     report (run_week F d now) @ summary_header @ member_summary F (run_week F d now)
     @ report_footer F (week_total (run_week F d now))
   \<and> report (run_week F d now) =
       report_header (fst (get_week_range now)) (snd (get_week_range now))
       @ concat (map (day_block F d) (week_dates now))
   \<and> (p \<in> set (payments d) \<and> c \<in> set (week_dates now) \<and> date p = strftime_Ymd c
        \<and> username p \<notin> set (members d) \<longrightarrow>
        (\<exists>ps1 ps2. day_payments d c = ps1 @ p # ps2
           \<and> day_block F d c =
               day_heading c @ concat (map (listing_line F) ps1) @ listing_line F p
               @ concat (map (listing_line F) ps2) @ ''   Daily Total: $''
               @ fmt_total F (sum_amounts F (map amount (ps1 @ p # ps2))) @ ''\<newline>'')
        \<and> (\<exists>es1 es2. week_entries d now = es1 @ (c, p) # es2
             \<and> week_total (run_week F d now)
                 = sum_amounts F (map (\<lambda>e. amount (snd e)) (es1 @ (c, p) # es2)))
        \<and> (\<forall>xs ys. payments d = xs @ p # ys \<longrightarrow>
              member_totals (run_week F (d\<lparr>payments := xs @ ys\<rparr>) now)
                = member_totals (run_week F d now)
              \<and> member_days (run_week F (d\<lparr>payments := xs @ ys\<rparr>) now)
                  = member_days (run_week F d now)
              \<and> member_summary F (run_week F (d\<lparr>payments := xs @ ys\<rparr>) now)
                  = member_summary F (run_week F d now)))
   \<and> (\<forall>m \<in> set (members d).
         (\<forall>q \<in> set (payments d). username q = m \<longrightarrow>
            (\<forall>c' \<in> set (week_dates now). date q \<noteq> strftime_Ymd c')) \<longrightarrow>
         (\<exists>pre post. member_summary F (run_week F d now)
            = pre @ CROSS_MARK @ '' @'' @ m @ '': $0.00 (Days: None)\<newline>'' @ post))"
proof (intro conjI impI ballI allI)
  show "generate_weekly_report F d now =
     report (run_week F d now) @ summary_header @ member_summary F (run_week F d now)
     @ report_footer F (week_total (run_week F d now))"
    by (rule generate_weekly_report_parts)
next
  show "report (run_week F d now) =
       report_header (fst (get_week_range now)) (snd (get_week_range now))
       @ concat (map (day_block F d) (week_dates now))"
    by (simp add: run_week_eq)
next
  assume "p \<in> set (payments d) \<and> c \<in> set (week_dates now) \<and> date p = strftime_Ymd c
      \<and> username p \<notin> set (members d)"
  then have "p \<in> set (day_payments d c)" by (simp add: day_payments_def)
  then obtain ps1 ps2 where split: "day_payments d c = ps1 @ p # ps2"
    by (auto dest: split_list)
  then have "day_block F d c =
      day_heading c @ concat (map (listing_line F) ps1) @ listing_line F p
      @ concat (map (listing_line F) ps2) @ ''   Daily Total: $''
      @ fmt_total F (sum_amounts F (map amount (ps1 @ p # ps2))) @ ''\<newline>''"
    by (simp add: day_block_def)
  with split show "\<exists>ps1 ps2. day_payments d c = ps1 @ p # ps2
      \<and> day_block F d c =
          day_heading c @ concat (map (listing_line F) ps1) @ listing_line F p
          @ concat (map (listing_line F) ps2) @ ''   Daily Total: $''
          @ fmt_total F (sum_amounts F (map amount (ps1 @ p # ps2))) @ ''\<newline>''"
    by blast
next
  assume "p \<in> set (payments d) \<and> c \<in> set (week_dates now) \<and> date p = strftime_Ymd c
      \<and> username p \<notin> set (members d)"
  then have "(c, p) \<in> set (week_entries d now)"
    by (simp add: week_entries_def in_entries_iff)
  then obtain es1 es2 where split: "week_entries d now = es1 @ (c, p) # es2"
    by (auto dest: split_list)
  have "week_total (run_week F d now)
      = sum_amounts F (map (\<lambda>e. amount (snd e)) (week_entries d now))"
    by (simp add: run_week_eq)
  with split show "\<exists>es1 es2. week_entries d now = es1 @ (c, p) # es2
      \<and> week_total (run_week F d now)
          = sum_amounts F (map (\<lambda>e. amount (snd e)) (es1 @ (c, p) # es2))"
    by auto
next
  fix xs ys
  assume hyps: "p \<in> set (payments d) \<and> c \<in> set (week_dates now) \<and> date p = strftime_Ymd c
      \<and> username p \<notin> set (members d)"
    and ledger: "payments d = xs @ p # ys"
  define d' where "d' = d\<lparr>payments := xs @ ys\<rparr>"
  have same: "entries_of m (week_entries d' now) = entries_of m (week_entries d now)"
    if "m \<in> set (members d)" for m
  proof -
    from that hyps have "username p \<noteq> m" by auto
    then have "filter (\<lambda>q. username q = m) (payments d) = filter (\<lambda>q. username q = m) (xs @ ys)"
      by (simp add: ledger)
    then show ?thesis
      by (simp add: week_entries_def entries_of_entries d'_def)
  qed
  have roster: "members d' = members d" by (simp add: d'_def)
  have totals: "member_totals (run_week F d' now) = member_totals (run_week F d now)"
    by (simp add: run_week_eq roster same)
  have days: "member_days (run_week F d' now) = member_days (run_week F d now)"
    by (simp add: run_week_eq roster same)
  from totals days
  show "member_totals (run_week F (d\<lparr>payments := xs @ ys\<rparr>) now) = member_totals (run_week F d now)"
    and "member_days (run_week F (d\<lparr>payments := xs @ ys\<rparr>) now) = member_days (run_week F d now)"
    and "member_summary F (run_week F (d\<lparr>payments := xs @ ys\<rparr>) now)
        = member_summary F (run_week F d now)"
    by (simp_all add: d'_def member_summary_def)
next
  fix m
  assume m: "m \<in> set (members d)"
    and idle: "\<forall>q \<in> set (payments d). username q = m \<longrightarrow>
        (\<forall>c' \<in> set (week_dates now). date q \<noteq> strftime_Ymd c')"
  have none: "entries_of m (week_entries d now) = []"
    using idle by (auto simp: entries_of_def week_entries_def filter_empty_conv in_entries_iff)
  from m have "m \<in> set (first_occurrences (members d))" by simp
  then obtain ks1 ks2 where keys: "first_occurrences (members d) = ks1 @ m # ks2"
    by (blast dest: split_list)
  define days where
    "days k = map (\<lambda>e. take 3 (day_name_of (fst e))) (entries_of k (week_entries d now))" for k
  define line where
    "line k = summary_line F (map (\<lambda>k. (k, days k)) (first_occurrences (members d)))
        (k, sum_amounts F (map (\<lambda>e. amount (snd e)) (entries_of k (week_entries d now))))" for k
  have "line m = CROSS_MARK @ '' @'' @ m @ '': $0.00 (Days: None)\<newline>''"
    using idle_summary_line [of m "first_occurrences (members d)" days F] m
    by (simp add: line_def none days_def)
  moreover have "member_summary F (run_week F d now)
      = concat (map line ks1) @ line m @ concat (map line ks2)"
    unfolding member_summary_eq keys [symmetric] line_def days_def
    by (simp add: keys)
  ultimately show "\<exists>pre post. member_summary F (run_week F d now)
      = pre @ CROSS_MARK @ '' @'' @ m @ '': $0.00 (Days: None)\<newline>'' @ post"
    by (metis append.assoc)
qed

text \<open>The theorem on Sunday 10 March 2024, with the roster \<open>john, mary\<close> and two
  payments of Wednesday 6 March: one of \<open>john\<close> and one of \<open>zed\<close>, who is not in the
  roster. Without the payment of \<open>zed\<close> the member totals are the same, the week total
  adds it up, and \<open>mary\<close> has her line.\<close>

theorem report_non_roster_payment_and_idle_member_witness:
  "member_totals (run_week whole_ops
      \<lparr>payments = [\<lparr>username = ''john'', amount = 50, date = ''2024-03-06'', time = ''10:00:00'', day = ''Wednesday'', recorded_by = ''al''\<rparr>],
      members = [''john'', ''mary''], report_channel = None\<rparr>
      \<lparr>ordinal = 738955, hour = 9, minute = 0, second = 0\<rparr>)
     = member_totals (run_week whole_ops
      \<lparr>payments = [\<lparr>username = ''john'', amount = 50, date = ''2024-03-06'', time = ''10:00:00'', day = ''Wednesday'', recorded_by = ''al''\<rparr>,
        \<lparr>username = ''zed'', amount = 7, date = ''2024-03-06'', time = ''10:05:00'', day = ''Wednesday'', recorded_by = ''al''\<rparr>],
      members = [''john'', ''mary''], report_channel = None\<rparr>
      \<lparr>ordinal = 738955, hour = 9, minute = 0, second = 0\<rparr>)
   \<and> (\<exists>es1 es2. week_entries
      \<lparr>payments = [\<lparr>username = ''john'', amount = 50, date = ''2024-03-06'', time = ''10:00:00'', day = ''Wednesday'', recorded_by = ''al''\<rparr>,
        \<lparr>username = ''zed'', amount = 7, date = ''2024-03-06'', time = ''10:05:00'', day = ''Wednesday'', recorded_by = ''al''\<rparr>],
      members = [''john'', ''mary''], report_channel = None\<rparr>
      \<lparr>ordinal = 738955, hour = 9, minute = 0, second = 0\<rparr>
        = es1 @ (738951, \<lparr>username = ''zed'', amount = 7, date = ''2024-03-06'', time = ''10:05:00'', day = ''Wednesday'', recorded_by = ''al''\<rparr>) # es2
      \<and> week_total (run_week whole_ops
      \<lparr>payments = [\<lparr>username = ''john'', amount = 50, date = ''2024-03-06'', time = ''10:00:00'', day = ''Wednesday'', recorded_by = ''al''\<rparr>,
        \<lparr>username = ''zed'', amount = 7, date = ''2024-03-06'', time = ''10:05:00'', day = ''Wednesday'', recorded_by = ''al''\<rparr>],
      members = [''john'', ''mary''], report_channel = None\<rparr>
      \<lparr>ordinal = 738955, hour = 9, minute = 0, second = 0\<rparr>)
        = sum_amounts whole_ops (map (\<lambda>e. amount (snd e))
            (es1 @ (738951, \<lparr>username = ''zed'', amount = 7, date = ''2024-03-06'', time = ''10:05:00'', day = ''Wednesday'', recorded_by = ''al''\<rparr>) # es2)))
   \<and> (\<exists>pre post. member_summary whole_ops (run_week whole_ops
      \<lparr>payments = [\<lparr>username = ''john'', amount = 50, date = ''2024-03-06'', time = ''10:00:00'', day = ''Wednesday'', recorded_by = ''al''\<rparr>,
        \<lparr>username = ''zed'', amount = 7, date = ''2024-03-06'', time = ''10:05:00'', day = ''Wednesday'', recorded_by = ''al''\<rparr>],
      members = [''john'', ''mary''], report_channel = None\<rparr>
      \<lparr>ordinal = 738955, hour = 9, minute = 0, second = 0\<rparr>)
        = pre @ CROSS_MARK @ '' @'' @ ''mary'' @ '': $0.00 (Days: None)\<newline>'' @ post)"
proof -
  define pj :: "int payment" where "pj = \<lparr>username = ''john'', amount = 50, date = ''2024-03-06'', time = ''10:00:00'', day = ''Wednesday'', recorded_by = ''al''\<rparr>"
  define pz :: "int payment" where "pz = \<lparr>username = ''zed'', amount = 7, date = ''2024-03-06'', time = ''10:05:00'', day = ''Wednesday'', recorded_by = ''al''\<rparr>"
  define d :: "int data" where
    "d = \<lparr>payments = [pj, pz], members = [''john'', ''mary''], report_channel = None\<rparr>"
  define n where "n = \<lparr>ordinal = 738955, hour = 9, minute = 0, second = 0\<rparr>"
  have range: "get_week_range n = (738950, 738954)"
    by (simp add: n_def get_week_range_def weekday_def minus_days_def plus_days_def)
  have dates: "week_dates n = [738950, 738951, 738952, 738953, 738954]"
    by (simp add: week_dates_five range)
  have fmt: "strftime_Ymd 738951 = ''2024-03-06''" by code_simp
  have hyps: "pz \<in> set (payments d) \<and> 738951 \<in> set (week_dates n)
      \<and> date pz = strftime_Ymd 738951 \<and> username pz \<notin> set (members d)"
    by (simp add: d_def pz_def dates fmt)
  have idle: "\<forall>q \<in> set (payments d). username q = ''mary'' \<longrightarrow>
      (\<forall>c' \<in> set (week_dates n). date q \<noteq> strftime_Ymd c')"
    by (simp add: d_def pj_def pz_def)
  have mary: "''mary'' \<in> set (members d)" by (simp add: d_def)
  note inst = report_non_roster_payment_and_idle_member [of whole_ops d n pz 738951]
  note part = inst [THEN conjunct2, THEN conjunct2, THEN conjunct1, THEN mp, OF hyps]
  have "payments d = [pj] @ pz # []" by (simp add: d_def)
  with part [THEN conjunct2, THEN conjunct2]
  have "member_totals (run_week whole_ops (d\<lparr>payments := [pj] @ []\<rparr>) n)
      = member_totals (run_week whole_ops d n)"
    by blast
  then have one: "member_totals (run_week whole_ops
      \<lparr>payments = [pj], members = [''john'', ''mary''], report_channel = None\<rparr> n)
      = member_totals (run_week whole_ops d n)"
    by (simp add: d_def)
  note two = part [THEN conjunct2, THEN conjunct1]
  note three = inst [THEN conjunct2, THEN conjunct2, THEN conjunct2, THEN bspec, OF mary,
      THEN mp, OF idle]
  from one two three show ?thesis
    unfolding d_def pj_def pz_def n_def by simp
qed

subsection \<open>Recording a batch\<close>

lemma parse_payment_line_name_None:
  "fst (parse_payment_line F line ms) = None \<Longrightarrow> parse_payment_line F line ms = (None, None)"
  by (cases "extract_name_amount F line") (auto simp: parse_payment_line_unfold)

lemma parse_payment_line_name_Some:
  "fst (parse_payment_line F line ms) = Some n \<Longrightarrow>
     \<exists>a. parse_payment_line F line ms = (Some n, Some a)"
  by (cases "extract_name_amount F line") (auto simp: parse_payment_line_unfold)

text \<open>One line of a batch: passed over, recorded, or warned about. The test that decides
  between a record and a warning is the truth value of the matching member.\<close>

lemma line_step_skip:
  "line_name F ms l = None \<Longrightarrow> line_step F now who ms l acc = acc"
  by (cases acc)
    (auto simp: line_step_def line_name_def Let_def split: option.splits prod.splits
      dest: parse_payment_line_name_None)

lemma line_step_warn:
  assumes "line_name F ms l = Some n" and "\<not> truthy (match_member ms n)"
  shows "line_step F now who ms l (d, recorded, errors)
      = (d, recorded, errors @ [not_in_list_warning n])"
proof -
  from assms(1) have at: "startswith (strip l) ''@''"
    and "fst (parse_payment_line F (strip l) ms) = Some n"
    by (auto simp: line_name_def split: if_splits)
  then obtain a where "parse_payment_line F (strip l) ms = (Some n, Some a)"
    using parse_payment_line_name_Some by blast
  with at assms(2) show ?thesis by (simp add: line_step_def Let_def)
qed

lemma line_step_record:
  assumes "line_name F ms l = Some n" and "truthy (match_member ms n)"
  shows "\<exists>p. line_step F now who ms l (d, recorded, errors)
      = (d\<lparr>payments := payments d @ [p]\<rparr>, recorded @ [p], errors)
      \<and> Some (username p) = match_member ms n \<and> recorded_by p = who
      \<and> date p = strftime_Ymd (ordinal now)"
proof -
  from assms(1) have at: "startswith (strip l) ''@''"
    and "fst (parse_payment_line F (strip l) ms) = Some n"
    by (auto simp: line_name_def split: if_splits)
  then obtain a where "parse_payment_line F (strip l) ms = (Some n, Some a)"
    using parse_payment_line_name_Some by blast
  with at assms(2) show ?thesis
    by (auto simp: line_step_def Let_def truthy_def split: option.splits)
qed

lemma match_member_Some:
  "match_member ms n = Some m \<Longrightarrow> m \<in> set ms \<and> lower m = lower n"
  by (auto simp: match_member_def find_Some_iff)

lemma truthy_match_member:
  assumes "[] \<notin> set ms"
  shows "truthy (match_member ms n) \<longleftrightarrow> match_member ms n \<noteq> None"
proof (cases "match_member ms n")
  case None
  then show ?thesis by (simp add: truthy_def)
next
  case (Some m)
  then have "m \<in> set ms" by (simp add: match_member_Some)
  with assms have "m \<noteq> []" by auto
  with Some show ?thesis by (simp add: truthy_def)
qed

text \<open>The loop over the lines, on a roster without the empty name: one record for each
  line whose name matches the roster, one warning for each line whose name does not, and
  nothing else changes.\<close>

lemma fold_line_step:
  assumes "[] \<notin> set ms"
  shows "\<exists>new warnings.
      fold (line_step F now who ms) lines (d, recorded, errors)
        = (d\<lparr>payments := payments d @ new\<rparr>, recorded @ new, errors @ warnings)
      \<and> length new = length (matched_lines F ms lines)
      \<and> length warnings = length (unmatched_lines F ms lines)"
proof (induction lines arbitrary: d recorded errors)
  case Nil
  show ?case by (simp add: matched_lines_def unmatched_lines_def)
next
  case (Cons l lines)
  show ?case
  proof (cases "line_name F ms l")
    case None
    then have "line_step F now who ms l (d, recorded, errors) = (d, recorded, errors)"
      by (rule line_step_skip)
    with Cons [of d recorded errors] None show ?thesis
      by (simp add: matched_lines_def unmatched_lines_def)
  next
    case (Some n)
    show ?thesis
    proof (cases "match_member ms n")
      case None
      then have "\<not> truthy (match_member ms n)" by (simp add: truthy_def)
      with Some have step: "line_step F now who ms l (d, recorded, errors)
          = (d, recorded, errors @ [not_in_list_warning n])"
        by (rule line_step_warn)
      from Cons [of d recorded "errors @ [not_in_list_warning n]"]
      obtain new warnings where
        "fold (line_step F now who ms) lines (d, recorded, errors @ [not_in_list_warning n])
          = (d\<lparr>payments := payments d @ new\<rparr>, recorded @ new,
             (errors @ [not_in_list_warning n]) @ warnings)"
        "length new = length (matched_lines F ms lines)"
        "length warnings = length (unmatched_lines F ms lines)"
        by blast
      then have "fold (line_step F now who ms) (l # lines) (d, recorded, errors)
            = (d\<lparr>payments := payments d @ new\<rparr>, recorded @ new,
               errors @ (not_in_list_warning n # warnings))
          \<and> length new = length (matched_lines F ms (l # lines))
          \<and> length (not_in_list_warning n # warnings) = length (unmatched_lines F ms (l # lines))"
        using Some None by (simp add: step matched_lines_def unmatched_lines_def)
      then show ?thesis by blast
    next
      case (Some m)
      then have "truthy (match_member ms n)"
        using assms truthy_match_member [of ms n] by simp
      with \<open>line_name F ms l = Some n\<close> obtain p where
        step: "line_step F now who ms l (d, recorded, errors)
          = (d\<lparr>payments := payments d @ [p]\<rparr>, recorded @ [p], errors)"
        using line_step_record by blast
      from Cons [of "d\<lparr>payments := payments d @ [p]\<rparr>" "recorded @ [p]" errors]
      obtain new warnings where
        "fold (line_step F now who ms) lines (d\<lparr>payments := payments d @ [p]\<rparr>, recorded @ [p], errors)
          = (d\<lparr>payments := payments d @ [p]\<rparr>
               \<lparr>payments := payments (d\<lparr>payments := payments d @ [p]\<rparr>) @ new\<rparr>,
             (recorded @ [p]) @ new, errors @ warnings)"
        "length new = length (matched_lines F ms lines)"
        "length warnings = length (unmatched_lines F ms lines)"
        by blast
      then have "fold (line_step F now who ms) (l # lines) (d, recorded, errors)
            = (d\<lparr>payments := payments d @ (p # new)\<rparr>, recorded @ (p # new), errors @ warnings)
          \<and> length (p # new) = length (matched_lines F ms (l # lines))
          \<and> length warnings = length (unmatched_lines F ms (l # lines))"
        using Some \<open>line_name F ms l = Some n\<close>
        by (simp add: step matched_lines_def unmatched_lines_def)
      then show ?thesis by blast
    qed
  qed
qed

lemma process_lines_counts:
  assumes "[] \<notin> set ms"
    and "process_lines F now who ms lines d = (d', recorded, errors)"
  shows "d' = d\<lparr>payments := payments d @ recorded\<rparr>
      \<and> length recorded = length (matched_lines F ms lines)
      \<and> length errors = length (unmatched_lines F ms lines)"
  using fold_line_step [OF assms(1), of F now who lines d "[]" "[]"] assms(2)
  by (auto simp: process_lines_def)

text \<open>The handler saves the data once when the batch gave a record and not at all when it
  gave none.\<close>

lemma on_message_saves:
  assumes "author msg \<noteq> bot_user"
    and "CHR ''@'' \<in> set (strip (content msg))" and "list_ex isdigit (strip (content msg))"
    and "is_collection_day now"
    and "process_lines F now (author msg) (members (load_data w))
           (split_lines (strip (content msg))) (load_data w) = (d', recorded, errors)"
  shows "saves (on_message F now bot_user msg w) = (if recorded \<noteq> [] then saves w + 1 else saves w)
      \<and> data_file (on_message F now bot_user msg w)
          = (if recorded \<noteq> [] then Some d' else data_file w)"
  using assms by (simp add: on_message_def Let_def save_data_def send_def)

text \<open>The example of the specification: of three lines, the one of \<open>zed\<close> is not matched.
  Two records are appended, one warning is given, and the data is saved once.\<close>

lemma on_message_three_lines:
  "process_lines whole_ops \<lparr>ordinal = 738957, hour = 9, minute = 5, second = 0\<rparr> ''al''
      [''john'', ''mary''] (split_lines ''@john 50 paid\<newline>@zed 5\<newline>@mary 7'')
      \<lparr>payments = [], members = [''john'', ''mary''], report_channel = None\<rparr>
    = (\<lparr>payments =
          [\<lparr>username = ''john'', amount = 50, date = ''2024-03-12'', time = ''09:05:00'',
            day = ''Tuesday'', recorded_by = ''al''\<rparr>,
           \<lparr>username = ''mary'', amount = 7, date = ''2024-03-12'', time = ''09:05:00'',
            day = ''Tuesday'', recorded_by = ''al''\<rparr>],
        members = [''john'', ''mary''], report_channel = None\<rparr>,
       [\<lparr>username = ''john'', amount = 50, date = ''2024-03-12'', time = ''09:05:00'',
         day = ''Tuesday'', recorded_by = ''al''\<rparr>,
        \<lparr>username = ''mary'', amount = 7, date = ''2024-03-12'', time = ''09:05:00'',
         day = ''Tuesday'', recorded_by = ''al''\<rparr>],
       [not_in_list_warning ''zed''])
   \<and> saves (on_message whole_ops \<lparr>ordinal = 738957, hour = 9, minute = 5, second = 0\<rparr> ''bot''
        \<lparr>author = ''al'', content = ''@john 50 paid\<newline>@zed 5\<newline>@mary 7''\<rparr>
        \<lparr>data_file = Some \<lparr>payments = [], members = [''john'', ''mary''], report_channel = None\<rparr>,
         saves = 0, sent = []\<rparr>) = 1"
  by code_simp

text \<open>
  Claim C5 fails on a roster that holds the empty name. \<open>/addmember @\<close> on a new data file
  stores the empty name. On a collection day the line \<open>"@ 50"\<close> is then parsed into the
  empty name and the amount 50, and the empty name matches the member; but the handler
  tests the matching member for its truth value, the empty string is false, and the
  handler warns that the name is not in the member list: no record is appended and nothing
  is saved.
\<close>

theorem on_message_empty_name_member:
  "members (load_data (addmember ''@'' (\<lparr>data_file = None, saves = 0, sent = []\<rparr> :: int world)))
     = ['''']
   \<and> is_collection_day \<lparr>ordinal = 738957, hour = 9, minute = 5, second = 0\<rparr>
   \<and> parse_payment_line whole_ops ''@ 50'' [''''] = (Some '''', Some 50)
   \<and> match_member [''''] '''' = Some ''''
   \<and> matched_lines whole_ops [''''] (split_lines ''@ 50'') = [''@ 50'']
   \<and> payments (load_data
        (on_message whole_ops \<lparr>ordinal = 738957, hour = 9, minute = 5, second = 0\<rparr> ''bot''
           \<lparr>author = ''al'', content = ''@ 50''\<rparr>
           (addmember ''@'' \<lparr>data_file = None, saves = 0, sent = []\<rparr>))) = []
   \<and> saves (on_message whole_ops \<lparr>ordinal = 738957, hour = 9, minute = 5, second = 0\<rparr> ''bot''
           \<lparr>author = ''al'', content = ''@ 50''\<rparr>
           (addmember ''@'' \<lparr>data_file = None, saves = 0, sent = []\<rparr>))
       = saves (addmember ''@'' (\<lparr>data_file = None, saves = 0, sent = []\<rparr> :: int world))
   \<and> sent (on_message whole_ops \<lparr>ordinal = 738957, hour = 9, minute = 5, second = 0\<rparr> ''bot''
           \<lparr>author = ''al'', content = ''@ 50''\<rparr>
           (addmember ''@'' \<lparr>data_file = None, saves = 0, sent = []\<rparr>))
       = sent (addmember ''@'' (\<lparr>data_file = None, saves = 0, sent = []\<rparr> :: int world))
         @ [not_in_list_warning '''' @ ''\<newline>\<newline>Use `/addmember name` to add members.'']"
  by code_simp

end
